theory Spec2Isabelle
  imports Main "HOL-Library.Word"
begin

unbundle bit_operations_syntax

section \<open>Values of the host language\<close>

text \<open>
  A buffer is a list of bytes. Storing a number in a buffer keeps its low eight bits
  (\<open>Buffer.from([n])\<close>), reading a byte gives a number between 0 and 255.
\<close>

type_synonym byte = "8 word"
type_synonym buffer = "byte list"

definition toByte :: "int \<Rightarrow> byte" where
  "toByte n = word_of_int n"

definition byteVal :: "byte \<Rightarrow> int" where
  "byteVal b = uint b"

text \<open>
  The numbers of the program are double-precision floats. The codec only ever holds
  integral values, the two infinities and NaN (the decoder floors what it reads), so a
  number is one of these four. \<open>Num i\<close> stands for the double whose value is the integer
  \<open>i\<close>; the arithmetic below is the exact one, which is the double arithmetic as long
  as the magnitudes stay within \<open>2 ^ 53\<close>. Negative zero is identified with zero (the
  program never distinguishes them).
\<close>

datatype jsnum = Num int | NaN | PosInf | NegInf

text \<open>
  The errors the program throws: a negative input to the unsigned encoder, a buffer too
  short for the integer form its first byte declares, an unknown first byte, a buffer
  too short for the string its prefix declares, a send on a connection that is not
  open; \<open>TypeError\<close> is the host's own error for a method call on \<open>null\<close>.
\<close>

datatype error =
    NegativeInput int
  | BufferTooShort
  | InvalidMarker int
  | StringTooShort
  | NotOpen
  | TypeError

text \<open>The object \<open>{ value, bytesRead }\<close> the decoders return.\<close>

record ('v, 'n) decoded =
  val :: 'v
  bytesRead :: 'n

subsection \<open>Constants\<close>

definition DEFAULT_DU_VARIANT :: int where "DEFAULT_DU_VARIANT = 0"
definition SESSION_ID_MIN :: nat where "SESSION_ID_MIN = 10000"
definition SESSION_ID_RANGE :: nat where "SESSION_ID_RANGE = 990000"
definition SESSION_ID_PADDING_LENGTH :: nat where "SESSION_ID_PADDING_LENGTH = 40"
definition SESSION_ID_PADDING_CHARS :: string where
  "SESSION_ID_PADDING_CHARS = ''c04b8f7b594cdeedebc2a8029b82943b0a620815''"
definition MIN_BUFFER_LENGTH :: nat where "MIN_BUFFER_LENGTH = 2"

definition WIRE3_ONE_BYTE_MAX :: int where "WIRE3_ONE_BYTE_MAX = 215"
definition WIRE3_TWO_BYTE_MAX :: int where "WIRE3_TWO_BYTE_MAX = 9431"
definition WIRE3_TWO_BYTE_OFFSET :: int where "WIRE3_TWO_BYTE_OFFSET = 216"
definition WIRE3_MARKER_2_BYTES :: int where "WIRE3_MARKER_2_BYTES = 252"
definition WIRE3_MARKER_3_BYTES :: int where "WIRE3_MARKER_3_BYTES = 253"
definition WIRE3_MARKER_4_BYTES :: int where "WIRE3_MARKER_4_BYTES = 254"
definition WIRE3_MARKER_FLOAT64 :: int where "WIRE3_MARKER_FLOAT64 = 255"

subsection \<open>Operators on 32-bit integers\<close>

text \<open>
  \<open>a >> k\<close>, \<open>a << k\<close>, \<open>a & b\<close> and \<open>a | b\<close> convert their operands to signed
  32-bit integers first and give a signed 32-bit integer.
\<close>

definition toInt32 :: "int \<Rightarrow> int" where
  "toInt32 n = signed_take_bit 31 n"

definition js_shr :: "int \<Rightarrow> nat \<Rightarrow> int" where
  "js_shr a k = drop_bit (k mod 32) (toInt32 a)"

definition js_shl :: "int \<Rightarrow> nat \<Rightarrow> int" where
  "js_shl a k = toInt32 (push_bit (k mod 32) (toInt32 a))"

definition js_and :: "int \<Rightarrow> int \<Rightarrow> int" where
  "js_and a b = toInt32 a AND toInt32 b"

definition js_or :: "int \<Rightarrow> int \<Rightarrow> int" where
  "js_or a b = toInt32 a OR toInt32 b"

text \<open>\<open>a % b\<close>: the remainder has the sign of the dividend.\<close>

definition js_rem :: "int \<Rightarrow> int \<Rightarrow> int" where
  "js_rem a b = sgn a * (\<bar>a\<bar> mod \<bar>b\<bar>)"

subsection \<open>Doubles in a buffer\<close>

text \<open>
  \<open>buf.writeDoubleLE(n, 1)\<close> stores the eight bytes of the IEEE 754 binary64
  representation of \<open>n\<close>, least significant byte first. The encoder calls it with a
  non-negative integer of at least \<open>2 ^ 32\<close>: the exponent field is 1023 plus the
  position of the leading bit, the fraction field the 52 bits below the leading bit.
  (An integer with more than 53 significant bits is not a double: the program cannot
  hold one, and the fraction below just drops the excess bits.)
\<close>

fun ilog2 :: "nat \<Rightarrow> nat" where
  "ilog2 n = (if n < 2 then 0 else Suc (ilog2 (n div 2)))"

declare ilog2.simps [simp del]

definition float64_bits :: "int \<Rightarrow> int" where
  "float64_bits n =
     (if n = 0 then 0
      else let a = \<bar>n\<bar>;
               e = ilog2 (nat a);
               frac = (if e \<le> 52 then (a - 2 ^ e) * 2 ^ (52 - e)
                       else (a - 2 ^ e) div 2 ^ (e - 52))
           in (if n < 0 then 2 ^ 63 else 0) + (int e + 1023) * 2 ^ 52 + frac)"

definition bytesLE :: "nat \<Rightarrow> int \<Rightarrow> buffer" where
  "bytesLE k bits = map (\<lambda>i. toByte (bits div 256 ^ i)) [0..<k]"

definition writeDoubleLE :: "int \<Rightarrow> buffer" where
  "writeDoubleLE n = bytesLE 8 (float64_bits n)"

text \<open>
  \<open>Math.floor(buffer.readDoubleLE(o))\<close>: any eight bytes are a double. The exponent
  field 2047 is an infinity or NaN, the field 0 a subnormal (below 1 in magnitude),
  anything else the value \<open>(2 ^ 52 + frac) * 2 ^ (e - 1075)\<close> with its sign.
\<close>

definition fromLE :: "buffer \<Rightarrow> int" where
  "fromLE bs = foldr (\<lambda>b acc. byteVal b + 256 * acc) bs 0"

definition floorDouble :: "int \<Rightarrow> jsnum" where
  "floorDouble bits =
     (let neg = (bits div 2 ^ 63) mod 2 = 1;
          e = (bits div 2 ^ 52) mod 2048;
          frac = bits mod 2 ^ 52
      in if e = 2047 then (if frac \<noteq> 0 then NaN else if neg then NegInf else PosInf)
         else if e = 0 then Num (if neg \<and> frac \<noteq> 0 then - 1 else 0)
         else let m = (if neg then - (2 ^ 52 + frac) else 2 ^ 52 + frac)
              in if 1075 \<le> e then Num (m * 2 ^ nat (e - 1075))
                 else Num (m div 2 ^ nat (1075 - e)))"

definition readDoubleLE_floor :: "buffer \<Rightarrow> nat \<Rightarrow> jsnum" where
  "readDoubleLE_floor buffer off = floorDouble (fromLE (take 8 (drop off buffer)))"

section \<open>Wire3 integers\<close>

definition signedToUnsigned :: "int \<Rightarrow> int" where
  "signedToUnsigned i = (if i < 0 then - 2 * i - 1 else 2 * i)"

text \<open>
  \<open>unsignedToSigned\<close> is applied to whatever the decoder read. On NaN and on the
  infinities \<open>i % 2\<close> is NaN, so the second branch is taken, and halving and flooring
  leaves them as they are.
\<close>

fun unsignedToSigned :: "jsnum \<Rightarrow> jsnum" where
  "unsignedToSigned (Num i) =
     (if js_rem i 2 = 1 then Num (- ((i + 1) div 2)) else Num (i div 2))"
| "unsignedToSigned NaN = NaN"
| "unsignedToSigned PosInf = PosInf"
| "unsignedToSigned NegInf = NegInf"

definition encodeUnsignedInt :: "int \<Rightarrow> error + buffer" where
  "encodeUnsignedInt n =
     (if n < 0 then Inl (NegativeInput n)
      else if n \<le> WIRE3_ONE_BYTE_MAX then Inr [toByte n]
      else if n \<le> WIRE3_TWO_BYTE_MAX then
        (let adjusted = n - WIRE3_TWO_BYTE_OFFSET;
             b0 = WIRE3_TWO_BYTE_OFFSET + adjusted div 256;
             b1 = adjusted mod 256
         in Inr [toByte b0, toByte b1])
      else if n < 256 * 256 then
        Inr [toByte WIRE3_MARKER_2_BYTES,
             toByte (js_and (js_shr n 8) 0xFF),
             toByte (js_and n 0xFF)]
      else if n < 256 * 256 * 256 then
        Inr [toByte WIRE3_MARKER_3_BYTES,
             toByte (js_and (js_shr n 16) 0xFF),
             toByte (js_and (js_shr n 8) 0xFF),
             toByte (js_and n 0xFF)]
      else if n < 256 * 256 * 256 * 256 then
        Inr [toByte WIRE3_MARKER_4_BYTES,
             toByte (js_and (js_shr n 24) 0xFF),
             toByte (js_and (js_shr n 16) 0xFF),
             toByte (js_and (js_shr n 8) 0xFF),
             toByte (js_and n 0xFF)]
      else Inr (toByte WIRE3_MARKER_FLOAT64 # writeDoubleLE n))"

definition decodeUnsignedInt :: "buffer \<Rightarrow> nat \<Rightarrow> error + (jsnum, nat) decoded" where
  "decodeUnsignedInt buffer offset =
     (if offset \<ge> length buffer then Inl BufferTooShort
      else let b0 = byteVal (buffer ! offset) in
        if b0 \<le> WIRE3_ONE_BYTE_MAX then Inr \<lparr>val = Num b0, bytesRead = 1\<rparr>
        else if b0 < WIRE3_MARKER_2_BYTES then
          (if offset + 1 \<ge> length buffer then Inl BufferTooShort
           else let b1 = byteVal (buffer ! (offset + 1));
                    v = WIRE3_TWO_BYTE_OFFSET + (b0 - WIRE3_TWO_BYTE_OFFSET) * 256 + b1
                in Inr \<lparr>val = Num v, bytesRead = 2\<rparr>)
        else if b0 = WIRE3_MARKER_2_BYTES then
          (if offset + 2 \<ge> length buffer then Inl BufferTooShort
           else let v = js_or (js_shl (byteVal (buffer ! (offset + 1))) 8)
                              (byteVal (buffer ! (offset + 2)))
                in Inr \<lparr>val = Num v, bytesRead = 3\<rparr>)
        else if b0 = WIRE3_MARKER_3_BYTES then
          (if offset + 3 \<ge> length buffer then Inl BufferTooShort
           else let v = js_or (js_or (js_shl (byteVal (buffer ! (offset + 1))) 16)
                                     (js_shl (byteVal (buffer ! (offset + 2))) 8))
                              (byteVal (buffer ! (offset + 3)))
                in Inr \<lparr>val = Num v, bytesRead = 4\<rparr>)
        else if b0 = WIRE3_MARKER_4_BYTES then
          (if offset + 4 \<ge> length buffer then Inl BufferTooShort
           else let v = byteVal (buffer ! (offset + 1)) * 0x1000000 +
                        byteVal (buffer ! (offset + 2)) * 0x10000 +
                        byteVal (buffer ! (offset + 3)) * 0x100 +
                        byteVal (buffer ! (offset + 4))
                in Inr \<lparr>val = Num v, bytesRead = 5\<rparr>)
        else if b0 = WIRE3_MARKER_FLOAT64 then
          (if offset + 8 \<ge> length buffer then Inl BufferTooShort
           else Inr \<lparr>val = readDoubleLE_floor buffer (offset + 1), bytesRead = 9\<rparr>)
        else Inl (InvalidMarker b0))"

definition encodeInt64 :: "int \<Rightarrow> error + buffer" where
  "encodeInt64 signedValue = encodeUnsignedInt (signedToUnsigned signedValue)"

definition decodeInt64 :: "buffer \<Rightarrow> nat \<Rightarrow> error + (jsnum, nat) decoded" where
  "decodeInt64 buffer offset =
     (case decodeUnsignedInt buffer offset of
        Inl e \<Rightarrow> Inl e
      | Inr r \<Rightarrow> Inr \<lparr>val = unsignedToSigned (val r), bytesRead = bytesRead r\<rparr>)"


section \<open>Wire3 strings\<close>

text \<open>
  A string of the host is a sequence of 16-bit code units (UTF-16). A unit from
  \<open>0xD800\<close> to \<open>0xDBFF\<close> is a high surrogate, one from \<open>0xDC00\<close> to \<open>0xDFFF\<close> a low
  surrogate; a high surrogate followed by a low one stands for one code point above
  \<open>0xFFFF\<close>.
\<close>

type_synonym unit16 = "16 word"
type_synonym ustring = "unit16 list"

definition toUnit :: "int \<Rightarrow> unit16" where "toUnit n = word_of_int n"
definition unitVal :: "unit16 \<Rightarrow> int" where "unitVal u = uint u"

definition is_high :: "unit16 \<Rightarrow> bool" where
  "is_high u = (0xD800 \<le> unitVal u \<and> unitVal u \<le> 0xDBFF)"
definition is_low :: "unit16 \<Rightarrow> bool" where
  "is_low u = (0xDC00 \<le> unitVal u \<and> unitVal u \<le> 0xDFFF)"

text \<open>The replacement character U+FFFD.\<close>

definition REPLACEMENT :: int where "REPLACEMENT = 0xFFFD"

text \<open>
  \<open>Buffer.from(str, 'utf8')\<close> writes the UTF-8 form of the code points of the string,
  one to four bytes each. A surrogate that is not part of a pair is written as the
  replacement character, the bytes \<open>EF BF BD\<close>.
\<close>

definition utf8_of_code_point :: "int \<Rightarrow> buffer" where
  "utf8_of_code_point cp =
     (if cp < 0x80 then [toByte cp]
      else if cp < 0x800 then [toByte (0xC0 + cp div 64), toByte (0x80 + cp mod 64)]
      else if cp < 0x10000 then
        [toByte (0xE0 + cp div 4096), toByte (0x80 + cp div 64 mod 64), toByte (0x80 + cp mod 64)]
      else
        [toByte (0xF0 + cp div 262144), toByte (0x80 + cp div 4096 mod 64),
         toByte (0x80 + cp div 64 mod 64), toByte (0x80 + cp mod 64)])"

fun utf8_bytes :: "ustring \<Rightarrow> buffer" where
  "utf8_bytes [] = []"
| "utf8_bytes [u] = utf8_of_code_point (if is_high u \<or> is_low u then REPLACEMENT else unitVal u)"
| "utf8_bytes (u # v # rest) =
     (if is_high u \<and> is_low v then
        utf8_of_code_point (0x10000 + (unitVal u - 0xD800) * 1024 + (unitVal v - 0xDC00))
          @ utf8_bytes rest
      else if is_high u \<or> is_low u then utf8_of_code_point REPLACEMENT @ utf8_bytes (v # rest)
      else utf8_of_code_point (unitVal u) @ utf8_bytes (v # rest))"

text \<open>
  \<open>buf.toString('utf8')\<close> decodes UTF-8. A byte that cannot start a sequence, and a
  sequence cut short by a byte that cannot continue it or by the end of the buffer,
  decode to the replacement character; decoding goes on at the byte that did not fit.
  The second byte of a sequence is restricted after the lead bytes \<open>E0\<close>, \<open>ED\<close>, \<open>F0\<close>
  and \<open>F4\<close>, which excludes overlong forms, surrogates and code points above
  \<open>0x10FFFF\<close>.
\<close>

definition continuation :: "int \<Rightarrow> int \<Rightarrow> byte \<Rightarrow> bool" where
  "continuation lower upper b = (lower \<le> byteVal b \<and> byteVal b \<le> upper)"

fun utf8_decode :: "buffer \<Rightarrow> int list" where
  "utf8_decode [] = []"
| "utf8_decode (b # bs) =
     (let x = byteVal b in
      if x < 0x80 then x # utf8_decode bs
      else if 0xC2 \<le> x \<and> x \<le> 0xDF then
        (case bs of
           [] \<Rightarrow> [REPLACEMENT]
         | c1 # r1 \<Rightarrow>
             if \<not> continuation 0x80 0xBF c1 then REPLACEMENT # utf8_decode bs
             else ((x - 0xC0) * 64 + (byteVal c1 - 0x80)) # utf8_decode r1)
      else if 0xE0 \<le> x \<and> x \<le> 0xEF then
        (case bs of
           [] \<Rightarrow> [REPLACEMENT]
         | c1 # r1 \<Rightarrow>
             if \<not> continuation (if x = 0xE0 then 0xA0 else 0x80) (if x = 0xED then 0x9F else 0xBF) c1
             then REPLACEMENT # utf8_decode bs
             else (case r1 of
                     [] \<Rightarrow> [REPLACEMENT]
                   | c2 # r2 \<Rightarrow>
                       if \<not> continuation 0x80 0xBF c2 then REPLACEMENT # utf8_decode r1
                       else ((x - 0xE0) * 4096 + (byteVal c1 - 0x80) * 64 + (byteVal c2 - 0x80))
                              # utf8_decode r2))
      else if 0xF0 \<le> x \<and> x \<le> 0xF4 then
        (case bs of
           [] \<Rightarrow> [REPLACEMENT]
         | c1 # r1 \<Rightarrow>
             if \<not> continuation (if x = 0xF0 then 0x90 else 0x80) (if x = 0xF4 then 0x8F else 0xBF) c1
             then REPLACEMENT # utf8_decode bs
             else (case r1 of
                     [] \<Rightarrow> [REPLACEMENT]
                   | c2 # r2 \<Rightarrow>
                       if \<not> continuation 0x80 0xBF c2 then REPLACEMENT # utf8_decode r1
                       else (case r2 of
                               [] \<Rightarrow> [REPLACEMENT]
                             | c3 # r3 \<Rightarrow>
                                 if \<not> continuation 0x80 0xBF c3 then REPLACEMENT # utf8_decode r2
                                 else ((x - 0xF0) * 262144 + (byteVal c1 - 0x80) * 4096
                                         + (byteVal c2 - 0x80) * 64 + (byteVal c3 - 0x80))
                                        # utf8_decode r3)))
      else REPLACEMENT # utf8_decode bs)"

text \<open>The code units of a code point: one unit, or a surrogate pair.\<close>

definition units_of_code_point :: "int \<Rightarrow> ustring" where
  "units_of_code_point cp =
     (if cp < 0x10000 then [toUnit cp]
      else [toUnit (0xD800 + (cp - 0x10000) div 1024), toUnit (0xDC00 + (cp - 0x10000) mod 1024)])"

definition utf8_string :: "buffer \<Rightarrow> ustring" where
  "utf8_string buf = concat (map units_of_code_point (utf8_decode buf))"

text \<open>A Unicode scalar value: a code point that is not a surrogate.\<close>

definition scalar :: "int \<Rightarrow> bool" where
  "scalar cp = (0 \<le> cp \<and> cp < 0x110000 \<and> \<not> (0xD800 \<le> cp \<and> cp \<le> 0xDFFF))"

text \<open>
  \<open>hasLoneSurrogate\<close> of the repository's property tests: the loop over the units of
  the string, with the unit before the current one (none before the first) as its
  state. A string for which it is false is well-formed UTF-16.
\<close>

fun loneSurrogate :: "unit16 option \<Rightarrow> ustring \<Rightarrow> bool" where
  "loneSurrogate prev [] = False"
| "loneSurrogate prev (u # rest) =
     ((is_high u \<and> (case rest of [] \<Rightarrow> True | v # _ \<Rightarrow> \<not> is_low v)) \<or>
      (is_low u \<and> (case prev of None \<Rightarrow> True | Some p \<Rightarrow> \<not> is_high p)) \<or>
      loneSurrogate (Some u) rest)"

definition hasLoneSurrogate :: "ustring \<Rightarrow> bool" where
  "hasLoneSurrogate s = loneSurrogate None s"

text \<open>The string of an ASCII text, one unit per character.\<close>

definition ascii :: "string \<Rightarrow> ustring" where
  "ascii cs = map (\<lambda>c. toUnit (of_char c)) cs"

text \<open>
  \<open>buffer.slice(start, end)\<close>: an index that is NaN counts as 0, a negative one is
  taken from the end of the buffer, and both are clamped to the buffer.
\<close>

definition adjustOffset :: "jsnum \<Rightarrow> nat \<Rightarrow> nat" where
  "adjustOffset offset len =
     (case offset of
        NaN \<Rightarrow> 0
      | PosInf \<Rightarrow> len
      | NegInf \<Rightarrow> 0
      | Num i \<Rightarrow>
          if i = 0 then 0
          else if i < 0 then (if i + int len > 0 then nat (i + int len) else 0)
          else if i < int len then nat i
          else len)"

definition buffer_slice :: "buffer \<Rightarrow> jsnum \<Rightarrow> jsnum \<Rightarrow> buffer" where
  "buffer_slice buf start end =
     (let s = adjustOffset start (length buf);
          e = adjustOffset end (length buf)
      in if e > s then take (e - s) (drop s buf) else [])"

text \<open>Sums and comparisons of a count with a number.\<close>

fun js_add :: "nat \<Rightarrow> jsnum \<Rightarrow> jsnum" where
  "js_add n (Num i) = Num (int n + i)"
| "js_add n NaN = NaN"
| "js_add n PosInf = PosInf"
| "js_add n NegInf = NegInf"

fun js_gt :: "jsnum \<Rightarrow> nat \<Rightarrow> bool" where
  "js_gt (Num i) n = (i > int n)"
| "js_gt NaN n = False"
| "js_gt PosInf n = True"
| "js_gt NegInf n = False"

definition encodeString :: "ustring \<Rightarrow> error + buffer" where
  "encodeString str =
     (let strBuffer = utf8_bytes str in
      case encodeInt64 (int (length strBuffer)) of
        Inl e \<Rightarrow> Inl e
      | Inr lengthBuffer \<Rightarrow> Inr (lengthBuffer @ strBuffer))"

definition decodeString :: "buffer \<Rightarrow> nat \<Rightarrow> error + (ustring, jsnum) decoded" where
  "decodeString buffer offset =
     (case decodeInt64 buffer offset of
        Inl e \<Rightarrow> Inl e
      | Inr r \<Rightarrow>
          let len = val r;
              lengthBytes = bytesRead r;
              strStart = offset + lengthBytes;
              strEnd = js_add strStart len
          in if js_gt strEnd (length buffer) then Inl StringTooShort
             else Inr \<lparr>val = utf8_string (buffer_slice buffer (Num (int strStart)) strEnd),
                       bytesRead = js_add lengthBytes len\<rparr>)"

section \<open>Messages: a variant tag and a string\<close>

definition encodeMessage :: "ustring \<Rightarrow> int \<Rightarrow> error + buffer" where
  "encodeMessage message duVariant =
     (case encodeString message of
        Inl e \<Rightarrow> Inl e
      | Inr stringEncoded \<Rightarrow> Inr ([toByte duVariant] @ stringEncoded))"

text \<open>\<open>decodeMessage\<close> returns \<open>null\<close> (here \<open>None\<close>) where it does not match.\<close>

definition decodeMessage :: "buffer \<Rightarrow> int \<Rightarrow> ustring option" where
  "decodeMessage buffer expectedDuVariant =
     (if length buffer < MIN_BUFFER_LENGTH then None
      else let actualDuVariant = byteVal (buffer ! 0) in
        if actualDuVariant \<noteq> expectedDuVariant then None
        else (case decodeString buffer 1 of
                Inr r \<Rightarrow> Some (val r)
              | Inl e \<Rightarrow> None))"


section \<open>Sessions\<close>

text \<open>\<open>n.toString()\<close> for a non-negative integer: its decimal digits.\<close>

definition digit_char :: "nat \<Rightarrow> char" where
  "digit_char d = ''0123456789'' ! (d mod 10)"

fun toString :: "nat \<Rightarrow> string" where
  "toString n = (if n < 10 then [digit_char n] else toString (n div 10) @ [digit_char (n mod 10)])"

declare toString.simps [simp del]

text \<open>
  \<open>s.padEnd(targetLength, padString)\<close>: the pad string is repeated and cut so that the
  result has the target length; a string already that long, or an empty pad, leaves
  \<open>s\<close> as it is.
\<close>

definition padEnd :: "string \<Rightarrow> nat \<Rightarrow> string \<Rightarrow> string" where
  "padEnd s targetLength padString =
     (if targetLength \<le> length s \<or> padString = [] then s
      else let fillLen = targetLength - length s
           in s @ take fillLen (concat (replicate fillLen padString)))"

text \<open>
  \<open>generateSessionId\<close> draws \<open>Math.floor(Math.random() * SESSION_ID_RANGE)\<close>; the draw,
  a natural number below \<open>SESSION_ID_RANGE\<close>, is the argument here.
\<close>

definition generateSessionId :: "nat \<Rightarrow> string" where
  "generateSessionId draw =
     (let randomNum = draw + SESSION_ID_MIN
      in padEnd (toString randomNum) SESSION_ID_PADDING_LENGTH SESSION_ID_PADDING_CHARS)"

text \<open>The number a string of decimal digits denotes.\<close>

definition decimal_value :: "string \<Rightarrow> nat" where
  "decimal_value s = foldl (\<lambda>acc c. 10 * acc + (of_char c - 48)) 0 s"

definition createSessionCookie :: "string \<Rightarrow> string" where
  "createSessionCookie sessionId = ''sid='' @ sessionId"

text \<open>
  \<open>cookieString.match(/sid=([^;]+)/)\<close>: the leftmost \<open>sid=\<close> that is followed by a
  character other than \<open>;\<close>, and the characters up to the next \<open>;\<close>.
\<close>

fun extractSessionFromCookie :: "string \<Rightarrow> string option" where
  "extractSessionFromCookie [] = None"
| "extractSessionFromCookie (c # cs) =
     (let captured = takeWhile (\<lambda>x. x \<noteq> CHR '';'') (drop 4 (c # cs))
      in if take 4 (c # cs) = ''sid='' \<and> captured \<noteq> [] then Some captured
         else extractSessionFromCookie cs)"

section \<open>The transport envelope\<close>

text \<open>\<open>encoded.toString('base64')\<close>: the standard alphabet, padded with \<open>=\<close>.\<close>

definition base64_alphabet :: string where
  "base64_alphabet = ''ABCDEFGHIJKLMNOPQRSTUVWXYZabcdefghijklmnopqrstuvwxyz0123456789+/''"

definition base64_char :: "int \<Rightarrow> char" where
  "base64_char i = base64_alphabet ! nat (i mod 64)"

fun base64 :: "buffer \<Rightarrow> string" where
  "base64 [] = []"
| "base64 [a] =
     (let x = byteVal a
      in [base64_char (x div 4), base64_char (x mod 4 * 16), CHR ''='', CHR ''=''])"
| "base64 [a, b] =
     (let x = byteVal a; y = byteVal b
      in [base64_char (x div 4), base64_char (x mod 4 * 16 + y div 16),
          base64_char (y mod 16 * 4), CHR ''=''])"
| "base64 (a # b # c # rest) =
     (let x = byteVal a; y = byteVal b; z = byteVal c
      in [base64_char (x div 4), base64_char (x mod 4 * 16 + y div 16),
          base64_char (y mod 16 * 4 + z div 64), base64_char (z mod 64)] @ base64 rest)"

text \<open>
  \<open>JSON.stringify\<close> of an object whose values are strings: the quote, the backslash
  and the control characters are escaped, everything else is copied.
\<close>

definition hex_digit :: "nat \<Rightarrow> char" where
  "hex_digit d = ''0123456789abcdef'' ! (d mod 16)"

definition json_escape :: "char \<Rightarrow> string" where
  "json_escape c =
     (let n = (of_char c :: nat) in
      if c = CHR 0x22 then [CHR 0x5C, CHR 0x22]
      else if c = CHR 0x5C then [CHR 0x5C, CHR 0x5C]
      else if n = 8 then [CHR 0x5C, CHR ''b'']
      else if n = 12 then [CHR 0x5C, CHR ''f'']
      else if n = 10 then [CHR 0x5C, CHR ''n'']
      else if n = 13 then [CHR 0x5C, CHR ''r'']
      else if n = 9 then [CHR 0x5C, CHR ''t'']
      else if n < 32 then [CHR 0x5C, CHR ''u'', CHR ''0'', CHR ''0'', hex_digit (n div 16), hex_digit n]
      else [c])"

definition json_string :: "string \<Rightarrow> string" where
  "json_string s = [CHR 0x22] @ concat (map json_escape s) @ [CHR 0x22]"

fun json_members :: "(string \<times> string) list \<Rightarrow> string" where
  "json_members [] = []"
| "json_members [(k, v)] = json_string k @ '':'' @ json_string v"
| "json_members ((k, v) # kvs) = json_string k @ '':'' @ json_string v @ '','' @ json_members kvs"

definition JSON_stringify :: "(string \<times> string) list \<Rightarrow> string" where
  "JSON_stringify obj = ''{'' @ json_members obj @ ''}''"

text \<open>\<open>a || b\<close> on an identifier that may be \<open>null\<close>: \<open>null\<close> and the empty string are falsy.\<close>

definition truthy :: "string option \<Rightarrow> bool" where
  "truthy x = (case x of None \<Rightarrow> False | Some s \<Rightarrow> s \<noteq> [])"

definition or_else :: "string option \<Rightarrow> string \<Rightarrow> string" where
  "or_else x d = (case x of None \<Rightarrow> d | Some s \<Rightarrow> if s = [] then d else s)"

definition createTransportMessage :: "string \<Rightarrow> string option \<Rightarrow> ustring \<Rightarrow> int \<Rightarrow> error + string" where
  "createTransportMessage sessionId connectionId message duVariant =
     (case encodeMessage message duVariant of
        Inl e \<Rightarrow> Inl e
      | Inr encoded \<Rightarrow>
          Inr (JSON_stringify
            [(''t'', ''ToBackend''),
             (''s'', sessionId),
             (''c'', or_else connectionId sessionId),
             (''b'', base64 encoded)]))"

text \<open>
  An inbound frame as \<open>parseTransportMessage\<close> classifies it. The identifiers come out
  of the parsed JSON and may be missing.
\<close>

datatype parsed =
    Election "string option"
  | Message ustring "string option" "string option"
  | Protocol "string option" "string option"
  | ParseError string


section \<open>The connection\<close>

datatype readyState = CONNECTING | OPEN | CLOSING | CLOSED

text \<open>
  The underlying socket, as far as the adapter acts on it: the frames passed to its
  \<open>send\<close> in order, the calls of its \<open>close\<close>, its own ready state, and whether the
  adapter's four handlers are attached to it.
\<close>

record socket =
  sent :: "string list"
  closeCalls :: "(int option \<times> string option) list"
  sockReadyState :: readyState
  handlersAttached :: bool

text \<open>
  The handle \<open>setTimeout\<close> returned for the reconnect: the timer is still pending, or it
  has fired. \<open>clearTimeout\<close> followed by \<open>retryTimeout = null\<close> drops it; the handle is
  cleared before every new one is stored, so no other reconnect timer exists.
\<close>

datatype timer = Pending | Fired

text \<open>The callbacks the adapter invokes, with what it passes them.\<close>

datatype event =
    OnOpen
  | OnSetup "string option" "string option" bool
  | OnMessage ustring
  | OnClose
  | OnError
  | OnLeaderDisconnect int

text \<open>
  An instance of \<open>LamderaWebSocket\<close>. A callback slot is either \<open>null\<close> or holds a
  function: the slot is a flag, and \<open>fired\<close> lists the callbacks invoked so far.
  \<open>discarded\<close> keeps the sockets the adapter closed and let go of.
\<close>

record lws =
  duVariant :: int
  maxRetries :: int
  sessionId :: string
  cookie :: string
  connectionId :: "string option"
  clientId :: "string option"
  leaderId :: "string option"
  readyState :: readyState
  onopen :: bool
  onmessage :: bool
  onclose :: bool
  onerror :: bool
  onsetup :: bool
  onleaderdisconnect :: bool
  ws :: "socket option"
  setupCalled :: bool
  isReady :: bool
  retryCount :: int
  retryTimeout :: "timer option"
  messageQueue :: "string list"
  initialTimer :: bool
  fired :: "event list"
  discarded :: "socket list"

record options =
  opt_duVariant :: "int option"
  opt_maxRetries :: "int option"
  opt_sessionId :: "string option"
  opt_cookie :: "string option"

definition DEFAULT_MAX_RETRIES :: int where "DEFAULT_MAX_RETRIES = 10"

text \<open>\<open>options.x || d\<close> on a number: a missing option and 0 give the default.\<close>

definition num_or :: "int option \<Rightarrow> int \<Rightarrow> int" where
  "num_or x d = (case x of None \<Rightarrow> d | Some n \<Rightarrow> if n = 0 then d else n)"

text \<open>The constructor; \<open>draw\<close> is the random draw of \<open>generateSessionId\<close>.\<close>

definition new_LamderaWebSocket :: "options \<Rightarrow> nat \<Rightarrow> lws" where
  "new_LamderaWebSocket opts draw =
     (let sid =
            (if truthy (opt_cookie opts)
             then (case extractSessionFromCookie (the (opt_cookie opts)) of
                     Some x \<Rightarrow> x | None \<Rightarrow> generateSessionId draw)
             else if truthy (opt_sessionId opts) then the (opt_sessionId opts)
             else generateSessionId draw);
          ck =
            (if truthy (opt_cookie opts) then the (opt_cookie opts)
             else createSessionCookie sid)
      in \<lparr>duVariant = num_or (opt_duVariant opts) DEFAULT_DU_VARIANT,
          maxRetries = num_or (opt_maxRetries opts) DEFAULT_MAX_RETRIES,
          sessionId = sid,
          cookie = ck,
          connectionId = None,
          clientId = None,
          leaderId = None,
          readyState = CONNECTING,
          onopen = False,
          onmessage = False,
          onclose = False,
          onerror = False,
          onsetup = False,
          onleaderdisconnect = False,
          ws = None,
          setupCalled = False,
          isReady = False,
          retryCount = 0,
          retryTimeout = None,
          messageQueue = [],
          initialTimer = True,
          fired = [],
          discarded = []\<rparr>)"

text \<open>
  \<open>syncReadyState\<close>: the ready state of the socket, if there is one, is copied to the
  instance.
\<close>

definition syncReadyState :: "lws \<Rightarrow> lws" where
  "syncReadyState st =
     (case ws st of
        Some sock \<Rightarrow> st\<lparr>readyState := sockReadyState sock\<rparr>
      | None \<Rightarrow> st)"

text \<open>
  \<open>_initWebSocket\<close>, once the socket implementation is there: a new socket, which is
  connecting, with the handlers attached; the call of \<open>syncReadyState\<close> that ends it
  copies the ready state of that socket.
\<close>

definition initWebSocket :: "lws \<Rightarrow> lws" where
  "initWebSocket st =
     syncReadyState
       (st\<lparr>ws := Some \<lparr>sent = [], closeCalls = [], sockReadyState = CONNECTING,
                       handlersAttached = True\<rparr>\<rparr>)"

text \<open>
  \<open>_initWebSocket\<close> when no socket implementation is available or the socket cannot be
  made: the \<open>catch\<close> branch.
\<close>

definition initWebSocket_failed :: "lws \<Rightarrow> lws" where
  "initWebSocket_failed st =
     (let st1 = st\<lparr>readyState := CLOSED\<rparr>
      in if onerror st1 then st1\<lparr>fired := fired st1 @ [OnError]\<rparr> else st1)"

definition initial_timer_fires :: "lws \<Rightarrow> lws" where
  "initial_timer_fires st = initWebSocket (st\<lparr>initialTimer := False\<rparr>)"

text \<open>The socket's \<open>onopen\<close>: the queue is drained into the socket, first in first out.\<close>

fun drain :: "string list \<Rightarrow> socket \<Rightarrow> socket" where
  "drain [] sock = sock"
| "drain (message # queue) sock = drain queue (sock\<lparr>sent := sent sock @ [message]\<rparr>)"

definition ws_onopen :: "lws \<Rightarrow> error + lws" where
  "ws_onopen st =
     (let st1 = st\<lparr>readyState := OPEN, isReady := True\<rparr> in
      case ws st1 of
        None \<Rightarrow> (if messageQueue st1 = [] then Inr st1 else Inl TypeError)
      | Some sock \<Rightarrow> Inr (st1\<lparr>ws := Some (drain (messageQueue st1) sock), messageQueue := []\<rparr>))"

definition ws_onclose :: "lws \<Rightarrow> lws" where
  "ws_onclose st =
     (let st1 = st\<lparr>readyState := CLOSED\<rparr>
      in if onclose st1 then st1\<lparr>fired := fired st1 @ [OnClose]\<rparr> else st1)"

definition ws_onerror :: "lws \<Rightarrow> lws" where
  "ws_onerror st = (if onerror st then st\<lparr>fired := fired st @ [OnError]\<rparr> else st)"

subsection \<open>Leader avoidance\<close>

datatype action = Disconnect | Continue

record evaluation =
  previousLeader :: "string option"
  newLeader :: string
  iAmLeader :: bool
  action :: action

definition evaluateLeaderStatus :: "string option \<Rightarrow> lws \<Rightarrow> evaluation option" where
  "evaluateLeaderStatus newLeaderId st =
     (if \<not> truthy newLeaderId \<or> \<not> truthy (clientId st) then None
      else Some \<lparr>previousLeader = leaderId st,
                 newLeader = the newLeaderId,
                 iAmLeader = (clientId st = newLeaderId),
                 action = (if clientId st = newLeaderId then Disconnect else Continue)\<rparr>)"

definition disconnectInternal :: "lws \<Rightarrow> lws" where
  "disconnectInternal st =
     (let st1 = (if retryTimeout st \<noteq> None then st\<lparr>retryTimeout := None\<rparr> else st);
          st2 = (case ws st1 of
                   None \<Rightarrow> st1
                 | Some sock \<Rightarrow>
                     st1\<lparr>discarded := discarded st1 @
                            [sock\<lparr>handlersAttached := False,
                                  closeCalls := closeCalls sock @ [(None, None)]\<rparr>],
                         ws := None\<rparr>)
      in st2\<lparr>isReady := False, messageQueue := [], connectionId := None,
             clientId := None, leaderId := None\<rparr>)"

text \<open>
  The delay of the reconnect (\<open>_calculateRetryDelay\<close>, a floating-point power and a
  random jitter) only sets when the timer fires, and is left out.
\<close>

definition handleLeaderDisconnection :: "lws \<Rightarrow> lws" where
  "handleLeaderDisconnection st =
     (let st1 = st\<lparr>retryCount := retryCount st + 1\<rparr>;
          st2 = st1\<lparr>readyState := CONNECTING\<rparr>;
          st3 = disconnectInternal st2
      in if retryCount st3 \<le> maxRetries st3 then st3\<lparr>retryTimeout := Some Pending\<rparr>
         else (let st4 = st3\<lparr>readyState := CLOSED\<rparr>
               in if onleaderdisconnect st4
                  then st4\<lparr>fired := fired st4 @ [OnLeaderDisconnect (retryCount st4)]\<rparr>
                  else st4))"

definition applyLeaderStatusChange :: "evaluation option \<Rightarrow> lws \<Rightarrow> bool \<times> lws" where
  "applyLeaderStatusChange ev st =
     (case ev of
        None \<Rightarrow> (False, st)
      | Some e \<Rightarrow>
          (let st1 = st\<lparr>leaderId := Some (newLeader e)\<rparr>
           in if action e = Disconnect then (True, handleLeaderDisconnection st1)
              else (False, st1)))"

text \<open>The reconnect timer fires: a fresh session, then a new socket.\<close>

definition retry_timer_fires :: "nat \<Rightarrow> lws \<Rightarrow> lws" where
  "retry_timer_fires draw st =
     (let st1 = st\<lparr>retryTimeout := Some Fired\<rparr>;
          st2 = st1\<lparr>sessionId := generateSessionId draw\<rparr>;
          st3 = st2\<lparr>cookie := createSessionCookie (sessionId st2)\<rparr>;
          st4 = st3\<lparr>setupCalled := False\<rparr>
      in initWebSocket st4)"

text \<open>The socket's \<open>onmessage\<close>, on the classified frame.\<close>

definition on_protocol :: "string option \<Rightarrow> lws \<Rightarrow> lws" where
  "on_protocol cid st =
     (if truthy cid then
        (let wasInitialHandshake = \<not> truthy (connectionId st) in
         if wasInitialHandshake then
           (let st1 = st\<lparr>connectionId := cid, clientId := cid\<rparr>;
                st2 = (if retryCount st1 > 0 then st1\<lparr>retryCount := 0\<rparr> else st1);
                st3 = (if onopen st2 then st2\<lparr>fired := fired st2 @ [OnOpen]\<rparr> else st2)
            in if onsetup st3 \<and> \<not> setupCalled st3
               then st3\<lparr>setupCalled := True,
                        fired := fired st3 @ [OnSetup (clientId st3) (leaderId st3) False]\<rparr>
               else st3)
         else st)
      else st)"

definition ws_onmessage :: "parsed \<Rightarrow> lws \<Rightarrow> lws" where
  "ws_onmessage p st =
     (case p of
        Protocol sid cid \<Rightarrow> on_protocol cid st
      | Election l \<Rightarrow> snd (applyLeaderStatusChange (evaluateLeaderStatus l st) st)
      | Message d sid cid \<Rightarrow>
          (if onmessage st then st\<lparr>fired := fired st @ [OnMessage d]\<rparr> else st)
      | ParseError e \<Rightarrow> st)"

subsection \<open>The public methods\<close>

definition send :: "ustring \<Rightarrow> lws \<Rightarrow> error + lws" where
  "send data st =
     (if retryCount st > 0 \<and> retryCount st \<le> maxRetries st then Inr st
      else if readyState st = CONNECTING then
        (case createTransportMessage (sessionId st) (connectionId st) data (duVariant st) of
           Inl e \<Rightarrow> Inl e
         | Inr transportMessage \<Rightarrow>
             Inr (st\<lparr>messageQueue := messageQueue st @ [transportMessage]\<rparr>))
      else if readyState st \<noteq> OPEN then Inl NotOpen
      else
        (case createTransportMessage (sessionId st) (connectionId st) data (duVariant st) of
           Inl e \<Rightarrow> Inl e
         | Inr transportMessage \<Rightarrow>
             (case ws st of
                None \<Rightarrow> Inl TypeError
              | Some sock \<Rightarrow>
                  Inr (st\<lparr>ws := Some (sock\<lparr>sent := sent sock @ [transportMessage]\<rparr>)\<rparr>))))"

definition close :: "int option \<Rightarrow> string option \<Rightarrow> lws \<Rightarrow> lws" where
  "close code reason st =
     (let st1 = (if retryTimeout st \<noteq> None then st\<lparr>retryTimeout := None\<rparr> else st);
          st2 = st1\<lparr>readyState := CLOSING\<rparr>
      in case ws st2 of
           Some sock \<Rightarrow> st2\<lparr>ws := Some (sock\<lparr>closeCalls := closeCalls sock @ [(code, reason)]\<rparr>)\<rparr>
         | None \<Rightarrow> st2\<lparr>readyState := CLOSED\<rparr>)"


subsection \<open>The states a connection can be in\<close>

text \<open>
  A connection starts in the state its constructor builds. From then on the caller
  installs callbacks and calls \<open>send\<close> and \<open>close\<close>, the timers fire, and the socket the
  instance holds reports that it opened, a frame, an error, or that it closed; the
  socket's own ready state changes by itself and is copied by the periodic
  \<open>syncReadyState\<close>.
\<close>

inductive reachable :: "lws \<Rightarrow> bool" where
  constructed: "reachable (new_LamderaWebSocket opts draw)"
| set_onopen: "reachable st \<Longrightarrow> reachable (st\<lparr>onopen := f\<rparr>)"
| set_onmessage: "reachable st \<Longrightarrow> reachable (st\<lparr>onmessage := f\<rparr>)"
| set_onclose: "reachable st \<Longrightarrow> reachable (st\<lparr>onclose := f\<rparr>)"
| set_onerror: "reachable st \<Longrightarrow> reachable (st\<lparr>onerror := f\<rparr>)"
| set_onsetup: "reachable st \<Longrightarrow> reachable (st\<lparr>onsetup := f\<rparr>)"
| set_onleaderdisconnect: "reachable st \<Longrightarrow> reachable (st\<lparr>onleaderdisconnect := f\<rparr>)"
| initial_timer: "reachable st \<Longrightarrow> initialTimer st \<Longrightarrow> reachable (initial_timer_fires st)"
| initial_failed:
    "reachable st \<Longrightarrow> initialTimer st \<Longrightarrow>
     reachable (initWebSocket_failed (st\<lparr>initialTimer := False\<rparr>))"
| socket_opened:
    "reachable st \<Longrightarrow> ws st = Some sock \<Longrightarrow> ws_onopen st = Inr st' \<Longrightarrow> reachable st'"
| socket_frame: "reachable st \<Longrightarrow> ws st = Some sock \<Longrightarrow> reachable (ws_onmessage p st)"
| socket_closed: "reachable st \<Longrightarrow> ws st = Some sock \<Longrightarrow> reachable (ws_onclose st)"
| socket_error: "reachable st \<Longrightarrow> ws st = Some sock \<Longrightarrow> reachable (ws_onerror st)"
| socket_state:
    "reachable st \<Longrightarrow> ws st = Some sock \<Longrightarrow>
     reachable (st\<lparr>ws := Some (sock\<lparr>sockReadyState := rs\<rparr>)\<rparr>)"
| synced: "reachable st \<Longrightarrow> reachable (syncReadyState st)"
| retry_timer:
    "reachable st \<Longrightarrow> retryTimeout st = Some Pending \<Longrightarrow> reachable (retry_timer_fires draw st)"
| retry_failed:
    "reachable st \<Longrightarrow> retryTimeout st = Some Pending \<Longrightarrow>
     reachable (initWebSocket_failed
       (st\<lparr>retryTimeout := Some Fired, sessionId := generateSessionId draw,
           cookie := createSessionCookie (generateSessionId draw), setupCalled := False\<rparr>))"
| sent: "reachable st \<Longrightarrow> send data st = Inr st' \<Longrightarrow> reachable st'"
| closed: "reachable st \<Longrightarrow> reachable (close code reason st)"

text \<open>
  What holds of every such state: an open connection has its socket; the retry count is
  0 or 1, and 0 while a client id is stored; the client id is the connection id; and
  with \<open>maxRetries\<close> at least 1 the leader-disconnect callback has not been invoked.
\<close>

definition conn_inv :: "lws \<Rightarrow> bool" where
  "conn_inv st \<longleftrightarrow>
     (readyState st = OPEN \<longrightarrow> ws st \<noteq> None) \<and>
     (retryCount st = 0 \<or> retryCount st = 1) \<and>
     (truthy (clientId st) \<longrightarrow> retryCount st = 0) \<and>
     clientId st = connectionId st \<and>
     (1 \<le> maxRetries st \<longrightarrow> (\<forall>n. OnLeaderDisconnect n \<notin> set (fired st)))"

section \<open>The declared form of an unsigned integer\<close>

text \<open>
  The table of the forms, as the specification words it: the first byte declares how
  many bytes follow it (none for 0 to 215, one for 216 to 251, two for 252, three for
  253, four for 254, eight for 255), and a form lies within the buffer when its first
  byte and the bytes that follow it do.
\<close>

definition declared_extra :: "int \<Rightarrow> nat" where
  "declared_extra b0 =
     (if 216 \<le> b0 \<and> b0 \<le> 251 then 1
      else if b0 = 252 then 2
      else if b0 = 253 then 3
      else if b0 = 254 then 4
      else if b0 = 255 then 8
      else 0)"

definition form_within :: "buffer \<Rightarrow> nat \<Rightarrow> bool" where
  "form_within buffer offset =
     (offset < length buffer \<and>
      offset + declared_extra (byteVal (buffer ! offset)) < length buffer)"

section \<open>Connections used as examples\<close>

text \<open>
  A connection during its initial-connect delay (no socket yet); the same connection
  with a leader-disconnect callback installed once the delay is over and the socket
  exists; once that socket has opened; and after the handshake frame that carries the
  connection id \<open>X1\<close>.
\<close>

definition st_delay :: lws where
  "st_delay = new_LamderaWebSocket
     \<lparr>opt_duVariant = None, opt_maxRetries = Some 2, opt_sessionId = Some ''s1'',
      opt_cookie = None\<rparr> 0"

definition st_conn :: lws where
  "st_conn = initial_timer_fires (st_delay\<lparr>onleaderdisconnect := True\<rparr>)"

definition st_open :: lws where
  "st_open = (case ws_onopen st_conn of Inr st \<Rightarrow> st | Inl e \<Rightarrow> st_conn)"

definition st_hand :: lws where
  "st_hand = ws_onmessage (Protocol (Some ''s1'') (Some ''X1'')) st_open"

text \<open>The connection after an election frame has named it the leader: torn down, a reconnect scheduled.\<close>

definition st_torn :: lws where
  "st_torn = ws_onmessage (Election (Some ''X1'')) st_hand"

text \<open>The torn-down connection once its reconnect timer has fired and the new socket has opened.\<close>

definition st_again :: lws where
  "st_again = (case ws_onopen (retry_timer_fires 0 st_torn) of Inr st \<Rightarrow> st | Inl e \<Rightarrow> st_torn)"

section \<open>Bytes and 32-bit operators\<close>

lemmas wire3_consts =
  WIRE3_ONE_BYTE_MAX_def WIRE3_TWO_BYTE_MAX_def WIRE3_TWO_BYTE_OFFSET_def
  WIRE3_MARKER_2_BYTES_def WIRE3_MARKER_3_BYTES_def WIRE3_MARKER_4_BYTES_def
  WIRE3_MARKER_FLOAT64_def

lemma byteVal_toByte: "byteVal (toByte n) = n mod 256"
  by (simp add: byteVal_def toByte_def uint_word_of_int take_bit_eq_mod)

lemma byteVal_range: "0 \<le> byteVal b \<and> byteVal b < 256"
  unfolding byteVal_def using uint_lt2p [of b] by simp

lemma ff_mask: "(0xFF::int) = mask 8" by (simp add: mask_eq_exp_minus_1)

lemma toByte_js_and: "toByte (js_and x 0xFF) = toByte x"
  unfolding toByte_def js_and_def toInt32_def ff_mask
  apply (rule bit_word_eqI)
  apply (auto simp add: bit_simps)
  done

lemma toByte_js_shr: "k \<le> 24 \<Longrightarrow> toByte (js_and (js_shr n k) 0xFF) = toByte (n div 2 ^ k)"
  unfolding toByte_js_and
  unfolding toByte_def js_shr_def toInt32_def
  apply (rule bit_word_eqI)
  apply (auto simp add: bit_simps simp flip: drop_bit_eq_div)
  done

lemma toInt32_id: "- (2 ^ 31) \<le> n \<Longrightarrow> n < 2 ^ 31 \<Longrightarrow> toInt32 n = n"
  by (simp add: toInt32_def signed_take_bit_int_eq_self)

lemma push_or_add:
  fixes a b :: int
  assumes "0 \<le> b" "b < 2 ^ k"
  shows "push_bit k a OR b = a * 2 ^ k + b"
proof -
  have b: "b = take_bit k b" using assms by (simp add: take_bit_int_eq_self)
  have "push_bit k a + take_bit k b = push_bit k a OR take_bit k b"
    by (rule disjunctive_add) (auto simp add: bit_simps)
  with b show ?thesis by (simp add: push_bit_eq_mult)
qed

lemma js_shl_byte:
  assumes "0 \<le> a" "a < 256" "k \<le> 16"
  shows "js_shl a k = a * 2 ^ k"
proof -
  have k: "k mod 32 = k" using assms by simp
  have "(2::int) ^ k \<le> 2 ^ 16" using assms(3) by (rule power_increasing) simp
  then have "a * 2 ^ k \<le> 256 * 2 ^ 16"
    using assms by (intro mult_mono) auto
  then have p: "a * 2 ^ k < 2 ^ 31" by simp
  have p0: "0 \<le> a * 2 ^ k" using assms by simp
  have a31: "a < 2 ^ 31" using assms by simp
  have 1: "toInt32 a = a" using assms a31 by (intro toInt32_id) auto
  have 2: "toInt32 (a * 2 ^ k) = a * 2 ^ k" using p p0 by (intro toInt32_id) auto
  show ?thesis
    unfolding js_shl_def k by (simp add: 1 2 push_bit_eq_mult)
qed

lemma js_or_252:
  assumes "0 \<le> a" "a < 256" "0 \<le> b" "b < 256"
  shows "js_or (js_shl a 8) b = a * 256 + b"
proof -
  have "js_or (js_shl a 8) b = (a * 256) OR b"
    using assms by (simp add: js_or_def js_shl_byte toInt32_id)
  also have "\<dots> = push_bit 8 a OR b" by (simp add: push_bit_eq_mult)
  also have "\<dots> = a * 2 ^ 8 + b" using assms by (intro push_or_add) auto
  finally show ?thesis by simp
qed

lemma js_or_253:
  assumes "0 \<le> a" "a < 256" "0 \<le> b" "b < 256" "0 \<le> c" "c < 256"
  shows "js_or (js_or (js_shl a 16) (js_shl b 8)) c = a * 65536 + b * 256 + c"
proof -
  have 1: "js_or (js_shl a 16) (js_shl b 8) = (a * 65536) OR (b * 256)"
    using assms by (simp add: js_or_def js_shl_byte toInt32_id)
  have "(a * 65536) OR (b * 256) = push_bit 16 a OR (b * 256)"
    by (simp add: push_bit_eq_mult)
  also have "\<dots> = a * 2 ^ 16 + b * 256" using assms by (intro push_or_add) auto
  finally have 2: "js_or (js_shl a 16) (js_shl b 8) = a * 65536 + b * 256"
    using 1 by simp
  have "js_or (a * 65536 + b * 256) c = (a * 65536 + b * 256) OR c"
    using assms by (simp add: js_or_def toInt32_id)
  also have "\<dots> = push_bit 8 (a * 256 + b) OR c"
    by (simp add: push_bit_eq_mult algebra_simps)
  also have "\<dots> = (a * 256 + b) * 2 ^ 8 + c" using assms by (intro push_or_add) auto
  finally show ?thesis using 2 by (simp add: algebra_simps)
qed

section \<open>Doubles written and read back\<close>

lemma ilog2_bounds: "0 < n \<Longrightarrow> 2 ^ ilog2 n \<le> n \<and> n < 2 ^ Suc (ilog2 n)"
proof (induction n rule: ilog2.induct)
  case (1 n)
  show ?case
  proof (cases "n < 2")
    case True
    with 1 have "n = 1" by simp
    then show ?thesis by (simp add: ilog2.simps)
  next
    case False
    then have "0 < n div 2" by simp
    with 1 False have IH: "2 ^ ilog2 (n div 2) \<le> n div 2 \<and> n div 2 < 2 ^ Suc (ilog2 (n div 2))"
      by simp
    have e: "ilog2 n = Suc (ilog2 (n div 2))" using False by (simp add: ilog2.simps)
    from IH show ?thesis unfolding e by (simp; linarith)
  qed
qed

lemma fromLE_Cons: "fromLE (b # bs) = byteVal b + 256 * fromLE bs"
  by (simp add: fromLE_def)

lemma bytesLE_Suc: "bytesLE (Suc k) bits = toByte bits # bytesLE k (bits div 256)"
proof -
  have "map (\<lambda>i. toByte (bits div 256 ^ i)) [0..<Suc k]
      = toByte (bits div 256 ^ 0) # map (\<lambda>i. toByte (bits div 256 ^ Suc i)) [0..<k]"
    by (simp add: upt_conv_Cons map_Suc_upt [symmetric] del: upt_Suc)
  moreover have "bits div 256 ^ Suc i = bits div 256 div 256 ^ i" for i
    by (simp add: zdiv_zmult2_eq)
  ultimately show ?thesis by (simp add: bytesLE_def del: upt_Suc)
qed

lemma length_bytesLE: "length (bytesLE k bits) = k"
  by (simp add: bytesLE_def)

lemma fromLE_bytesLE: "fromLE (bytesLE k bits) = bits mod 256 ^ k"
proof (induction k arbitrary: bits)
  case 0
  then show ?case by (simp add: bytesLE_def fromLE_def)
next
  case (Suc k)
  have "fromLE (bytesLE (Suc k) bits) = bits mod 256 + 256 * (bits div 256 mod 256 ^ k)"
    by (simp add: bytesLE_Suc fromLE_Cons Suc byteVal_toByte)
  also have "\<dots> = bits mod 256 ^ Suc k"
    using zmod_zmult2_eq [of "256 ^ k" bits 256] by simp
  finally show ?case .
qed


lemma ilog2_bounds_int:
  assumes "0 < (n::int)"
  shows "2 ^ ilog2 (nat n) \<le> n \<and> n < 2 ^ Suc (ilog2 (nat n))"
proof -
  have "0 < nat n" using assms by simp
  from ilog2_bounds [OF this]
  have "int (2 ^ ilog2 (nat n)) \<le> int (nat n) \<and> int (nat n) < int (2 ^ Suc (ilog2 (nat n)))"
    by (simp only: of_nat_le_iff of_nat_less_iff)
  then show ?thesis using assms by simp
qed

lemma div_mod_decomp:
  fixes f p k :: int
  assumes "0 \<le> f" "f < p"
  shows "(k * p + f) div p = k" "(k * p + f) mod p = f"
  using assms by (simp_all add: div_pos_pos_trivial mod_pos_pos_trivial)

lemma float64_bits_pos:
  assumes "0 < n" "n \<le> 2 ^ 53"
  shows "0 \<le> float64_bits n \<and> float64_bits n < 2 ^ 64 \<and> floorDouble (float64_bits n) = Num n"
proof -
  define e where "e = ilog2 (nat n)"
  have lo: "2 ^ e \<le> n" and hi: "n < 2 ^ Suc e"
    using ilog2_bounds_int [OF assms(1)] by (simp_all add: e_def)
  have e53: "e \<le> 53"
  proof (rule ccontr)
    assume "\<not> e \<le> 53"
    then have "54 \<le> e" by simp
    then have "(2::int) ^ 54 \<le> 2 ^ e" by (intro power_increasing) auto
    with lo assms(2) show False by simp
  qed
  have abs: "\<bar>n\<bar> = n" using assms by simp
  show ?thesis
  proof (cases "e \<le> 52")
    case True
    define d where "d = 52 - e"
    define r where "r = n - 2 ^ e"
    have ed: "e + d = 52" using True by (simp add: d_def)
    have r0: "0 \<le> r" using lo by (simp add: r_def)
    have hi': "n < 2 * 2 ^ e" using hi by simp
    have r_lt: "r < 2 ^ e" using hi' by (simp add: r_def)
    have ar: "n = 2 ^ e + r" by (simp add: r_def)
    have p52: "(2::int) ^ 52 = 2 ^ e * 2 ^ d" using ed by (simp flip: power_add)
    define f where "f = r * 2 ^ d"
    have f52: "f < 2 ^ 52" unfolding f_def p52 using r_lt by simp
    have f0: "0 \<le> f" using r0 by (simp add: f_def)
    have mm: "2 ^ 52 + f = n * 2 ^ d" unfolding f_def p52 ar by (simp add: algebra_simps)
    have bits: "float64_bits n = (int e + 1023) * 2 ^ 52 + f"
      using assms True
      by (simp add: float64_bits_def Let_def abs e_def [symmetric] r_def d_def f_def)
    have dv: "float64_bits n div 2 ^ 52 = int e + 1023"
      unfolding bits using f0 f52 by (rule div_mod_decomp)
    have md: "float64_bits n mod 2 ^ 52 = f"
      unfolding bits using f0 f52 by (rule div_mod_decomp)
    have "(int e + 1023) * 2 ^ 52 \<le> 1075 * 2 ^ 52" using True by simp
    then have b63: "float64_bits n < 2 ^ 63" and b0: "0 \<le> float64_bits n"
      unfolding bits using f0 f52 by simp_all
    have d63: "float64_bits n div 2 ^ 63 = 0" using b63 b0 by (simp add: div_pos_pos_trivial)
    have ef: "(int e + 1023) mod 2048 = int e + 1023" using True by simp
    have "floorDouble (float64_bits n) = Num n"
    proof (cases "e = 52")
      case True
      then have "d = 0" by (simp add: d_def)
      with mm have "2 ^ 52 + f = n" by simp
      then show ?thesis
        unfolding floorDouble_def Let_def dv md d63 ef using True by simp
    next
      case False
      with \<open>e \<le> 52\<close> have lt: "e < 52" by simp
      then have nd: "nat (52 - int e) = d" by (simp add: d_def)
      from mm have "(2 ^ 52 + f) div 2 ^ d = n" by simp
      then show ?thesis
        unfolding floorDouble_def Let_def dv md d63 ef using lt nd by simp
    qed
    with b0 b63 show ?thesis by simp
  next
    case False
    with e53 have e: "e = 53" by simp
    with lo assms(2) have a: "n = 2 ^ 53" by simp
    have "float64_bits n = (int e + 1023) * 2 ^ 52 + (n - 2 ^ e) div 2 ^ (e - 52)"
      using assms False by (simp add: float64_bits_def Let_def abs e_def [symmetric])
    then have bits: "float64_bits n = 1076 * 2 ^ 52"
      unfolding e a by simp
    show ?thesis unfolding bits floorDouble_def Let_def by (simp add: a)
  qed
qed

section \<open>Unsigned integers: when the codec fails\<close>

lemma encodeUnsignedInt_total: "0 \<le> n \<Longrightarrow> \<exists>bs. encodeUnsignedInt n = Inr bs"
  by (simp add: encodeUnsignedInt_def Let_def)

lemma encodeUnsignedInt_error: "encodeUnsignedInt n = Inl e \<longleftrightarrow> n < 0 \<and> e = NegativeInput n"
  by (auto simp add: encodeUnsignedInt_def Let_def)

lemma decodeUnsignedInt_within:
  assumes "form_within buffer offset"
  shows "\<exists>r. decodeUnsignedInt buffer offset = Inr r \<and>
             bytesRead r = 1 + declared_extra (byteVal (buffer ! offset))"
  using assms byteVal_range [of "buffer ! offset"]
  by (auto simp add: form_within_def declared_extra_def decodeUnsignedInt_def wire3_consts Let_def
      split: if_splits)

lemma decodeUnsignedInt_beyond:
  assumes "\<not> form_within buffer offset"
  shows "decodeUnsignedInt buffer offset = Inl BufferTooShort"
  using assms byteVal_range [of "buffer ! offset"]
  by (auto simp add: form_within_def declared_extra_def decodeUnsignedInt_def wire3_consts Let_def
      split: if_splits)

text \<open>
  Claim C4. \<open>encodeUnsignedInt\<close> fails exactly on a negative input, and the failure is
  the negative-input one. \<open>decodeUnsignedInt\<close> fails exactly when the form its first
  byte declares does not lie within the buffer, and the failure is then the too-short
  one: every byte is a first byte of some form, so the invalid-marker branch is never
  reached. Put the other way round, a form that lies within the buffer decodes, and
  the decoder reads one byte plus the declared ones.
\<close>

theorem unsigned_int_failures:
  "((\<exists>e. encodeUnsignedInt n = Inl e) \<longleftrightarrow> n < 0) \<and>
   (\<forall>e. encodeUnsignedInt n = Inl e \<longrightarrow> e = NegativeInput n) \<and>
   ((\<exists>e. decodeUnsignedInt buffer offset = Inl e) \<longleftrightarrow> \<not> form_within buffer offset) \<and>
   (\<forall>e. decodeUnsignedInt buffer offset = Inl e \<longrightarrow> e = BufferTooShort) \<and>
   (form_within buffer offset \<longrightarrow>
      (\<exists>r. decodeUnsignedInt buffer offset = Inr r \<and>
           bytesRead r = 1 + declared_extra (byteVal (buffer ! offset))))"
proof -
  have 1: "(\<exists>e. encodeUnsignedInt n = Inl e) \<longleftrightarrow> n < 0"
    by (auto simp add: encodeUnsignedInt_error)
  have 2: "\<forall>e. encodeUnsignedInt n = Inl e \<longrightarrow> e = NegativeInput n"
    by (simp add: encodeUnsignedInt_error)
  have 3: "(\<exists>e. decodeUnsignedInt buffer offset = Inl e) \<longleftrightarrow> \<not> form_within buffer offset"
    using decodeUnsignedInt_within [of buffer offset] decodeUnsignedInt_beyond [of buffer offset]
    by auto
  have 4: "\<forall>e. decodeUnsignedInt buffer offset = Inl e \<longrightarrow> e = BufferTooShort"
  proof (cases "form_within buffer offset")
    case True
    then show ?thesis using decodeUnsignedInt_within [of buffer offset] by auto
  next
    case False
    then show ?thesis using decodeUnsignedInt_beyond [of buffer offset] by auto
  qed
  show ?thesis using 1 2 3 4 decodeUnsignedInt_within [of buffer offset] by blast
qed

theorem unsigned_int_failures_witness:
  "encodeUnsignedInt (- 1) = Inl (NegativeInput (- 1)) \<and>
   decodeUnsignedInt [252, 1] 0 = Inl BufferTooShort \<and>
   (\<exists>r. decodeUnsignedInt [252, 1, 2] 0 = Inr r \<and> bytesRead r = 3) \<and>
   (\<exists>r. decodeUnsignedInt [255, 0, 0, 0, 0, 0, 0, 0xF8, 0x7F] 0 = Inr r \<and> bytesRead r = 9)"
proof -
  have a: "\<not> form_within [252, 1] 0"
    by (simp add: form_within_def declared_extra_def byteVal_def)
  have b: "form_within [252, 1, 2] 0"
    by (simp add: form_within_def declared_extra_def byteVal_def)
  have c: "form_within [255, 0, 0, 0, 0, 0, 0, 0xF8, 0x7F] 0"
    by (simp add: form_within_def declared_extra_def byteVal_def)
  have d: "\<exists>e. encodeUnsignedInt (- 1) = Inl e"
    using unsigned_int_failures [of "- 1" "[]" 0] by simp
  show ?thesis
    using unsigned_int_failures [of "- 1" "[252, 1]" 0] unsigned_int_failures [of "- 1" "[252, 1, 2]" 0]
      unsigned_int_failures [of "- 1" "[255, 0, 0, 0, 0, 0, 0, 0xF8, 0x7F]" 0] a b c d
    by (auto simp add: declared_extra_def byteVal_def)
qed

section \<open>Unsigned integers: every form decodes to what was encoded\<close>

lemma byteVal_toByte_id: "0 \<le> n \<Longrightarrow> n < 256 \<Longrightarrow> byteVal (toByte n) = n"
  by (simp add: byteVal_toByte)

lemma div_bound:
  fixes n c d :: int
  assumes "0 \<le> n" "n < c * d" "0 < d"
  shows "0 \<le> n div d" "n div d < c"
proof -
  show "0 \<le> n div d" using assms by (simp add: pos_imp_zdiv_nonneg_iff)
  show "n div d < c"
  proof (rule ccontr)
    assume "\<not> n div d < c"
    then have 1: "c * d \<le> n div d * d" using assms(3) by (simp add: mult_right_mono)
    have 2: "0 \<le> n mod d" using assms(3) by simp
    have 3: "n div d * d + n mod d = n" by simp
    show False using 1 2 3 assms(2) by linarith
  qed
qed

lemma bytes2:
  fixes n :: int
  assumes "0 \<le> n" "n < 65536"
  shows "(n div 256 mod 256) * 256 + n mod 256 = n"
proof -
  have "0 \<le> n div 256" "n div 256 < 256" using assms by (simp_all add: div_bound)
  then have "n div 256 mod 256 = n div 256" by (simp add: mod_pos_pos_trivial)
  then show ?thesis by simp
qed

lemma bytes3:
  fixes n :: int
  assumes "0 \<le> n" "n < 16777216"
  shows "(n div 65536 mod 256) * 65536 + (n div 256 mod 256) * 256 + n mod 256 = n"
proof -
  define a where "a = n div 65536 mod 256"
  define b where "b = n div 256 mod 256"
  define c where "c = n mod 256"
  define q where "q = n div 256"
  have q: "0 \<le> q" "q < 65536" using assms by (simp_all add: div_bound q_def)
  have e: "n div 65536 = q div 256" by (simp add: zdiv_zmult2_eq q_def)
  have 1: "a * 256 + b = q"
    unfolding a_def b_def e q_def [symmetric] using q by (rule bytes2)
  have 2: "q * 256 + c = n" by (simp add: q_def c_def)
  have "a * 65536 + b * 256 + c = n" using 1 2 by linarith
  then show ?thesis by (simp only: a_def b_def c_def)
qed

lemma bytes4:
  fixes n :: int
  assumes "0 \<le> n" "n < 4294967296"
  shows "(n div 16777216 mod 256) * 16777216 + (n div 65536 mod 256) * 65536
           + (n div 256 mod 256) * 256 + n mod 256 = n"
proof -
  define a where "a = n div 16777216 mod 256"
  define b where "b = n div 65536 mod 256"
  define c where "c = n div 256 mod 256"
  define d where "d = n mod 256"
  define q where "q = n div 256"
  have q: "0 \<le> q" "q < 16777216" using assms by (simp_all add: div_bound q_def)
  have e: "n div 65536 = q div 256" "n div 16777216 = q div 65536"
    by (simp_all add: zdiv_zmult2_eq q_def)
  have 1: "a * 65536 + b * 256 + c = q"
    unfolding a_def b_def c_def e q_def [symmetric] using q by (rule bytes3)
  have 2: "q * 256 + d = n" by (simp add: q_def d_def)
  have "a * 16777216 + b * 65536 + c * 256 + d = n" using 1 2 by linarith
  then show ?thesis by (simp only: a_def b_def c_def d_def)
qed


lemma decode_encode_1:
  assumes "0 \<le> n" "n \<le> 215"
  shows "encodeUnsignedInt n = Inr [toByte n]"
    and "decodeUnsignedInt [toByte n] 0 = Inr \<lparr>val = Num n, bytesRead = 1\<rparr>"
  using assms by (simp_all add: encodeUnsignedInt_def decodeUnsignedInt_def wire3_consts byteVal_toByte)

lemma decode_encode_2:
  assumes "216 \<le> n" "n \<le> 9431"
  shows "encodeUnsignedInt n = Inr [toByte (216 + (n - 216) div 256), toByte ((n - 216) mod 256)]"
    and "216 \<le> 216 + (n - 216) div 256 \<and> 216 + (n - 216) div 256 \<le> 251"
    and "decodeUnsignedInt [toByte (216 + (n - 216) div 256), toByte ((n - 216) mod 256)] 0
           = Inr \<lparr>val = Num n, bytesRead = 2\<rparr>"
proof -
  define q where "q = (n - 216) div 256"
  define r where "r = (n - 216) mod 256"
  show "encodeUnsignedInt n = Inr [toByte (216 + (n - 216) div 256), toByte ((n - 216) mod 256)]"
    using assms by (simp add: encodeUnsignedInt_def wire3_consts Let_def)
  have "0 \<le> n - 216" "n - 216 < 36 * 256" using assms by simp_all
  then have q: "0 \<le> q" "q < 36" unfolding q_def by (rule div_bound, simp)+
  then show "216 \<le> 216 + (n - 216) div 256 \<and> 216 + (n - 216) div 256 \<le> 251"
    by (simp add: q_def)
  have b0: "byteVal (toByte (216 + q)) = 216 + q"
    using q by (intro byteVal_toByte_id) auto
  have b1: "byteVal (toByte r) = r"
    by (simp add: byteVal_toByte r_def)
  have "q * 256 + r = n - 216" by (simp add: q_def r_def)
  then have v: "216 + q * 256 + r = n" by simp
  have "decodeUnsignedInt [toByte (216 + q), toByte r] 0 = Inr \<lparr>val = Num n, bytesRead = 2\<rparr>"
    unfolding decodeUnsignedInt_def using q v by (simp add: b0 b1 wire3_consts Let_def)
  then show "decodeUnsignedInt [toByte (216 + (n - 216) div 256), toByte ((n - 216) mod 256)] 0
           = Inr \<lparr>val = Num n, bytesRead = 2\<rparr>"
    by (simp only: q_def r_def)
qed

lemma toByte_252: "toByte 252 = 252" "toByte 253 = 253" "toByte 254 = 254" "toByte 255 = 255"
  by (simp_all add: toByte_def)

lemma byteVal_markers:
  "byteVal 252 = 252" "byteVal 253 = 253" "byteVal 254 = 254" "byteVal 255 = 255"
  by (simp_all add: byteVal_def)

lemma decode_encode_3:
  assumes "9432 \<le> n" "n < 65536"
  shows "encodeUnsignedInt n = Inr [252, toByte (n div 256), toByte n]"
    and "decodeUnsignedInt [252, toByte (n div 256), toByte n] 0
           = Inr \<lparr>val = Num n, bytesRead = 3\<rparr>"
proof -
  have s8: "toByte (js_and (js_shr n 8) 0xFF) = toByte (n div 2 ^ 8)"
    by (rule toByte_js_shr) simp
  show "encodeUnsignedInt n = Inr [252, toByte (n div 256), toByte n]"
    using assms s8 by (simp add: encodeUnsignedInt_def wire3_consts toByte_js_and toByte_252)
  define a where "a = n div 256 mod 256"
  define b where "b = n mod 256"
  have v: "a * 256 + b = n" unfolding a_def b_def using assms by (intro bytes2) auto
  have "js_or (js_shl a 8) b = a * 256 + b"
    by (rule js_or_252) (simp_all add: a_def b_def)
  with v have o: "js_or (js_shl a 8) b = n" by simp
  have "decodeUnsignedInt [252, toByte (n div 256), toByte n] 0
      = Inr \<lparr>val = Num (js_or (js_shl a 8) b), bytesRead = 3\<rparr>"
    unfolding decodeUnsignedInt_def a_def b_def
    by (simp add: byteVal_toByte byteVal_markers wire3_consts Let_def)
  then show "decodeUnsignedInt [252, toByte (n div 256), toByte n] 0
           = Inr \<lparr>val = Num n, bytesRead = 3\<rparr>"
    by (simp only: o)
qed

lemma decode_encode_4:
  assumes "65536 \<le> n" "n < 16777216"
  shows "encodeUnsignedInt n = Inr [253, toByte (n div 65536), toByte (n div 256), toByte n]"
    and "decodeUnsignedInt [253, toByte (n div 65536), toByte (n div 256), toByte n] 0
           = Inr \<lparr>val = Num n, bytesRead = 4\<rparr>"
proof -
  have s8: "toByte (js_and (js_shr n 8) 0xFF) = toByte (n div 2 ^ 8)"
    by (rule toByte_js_shr) simp
  have s16: "toByte (js_and (js_shr n 16) 0xFF) = toByte (n div 2 ^ 16)"
    by (rule toByte_js_shr) simp
  show "encodeUnsignedInt n = Inr [253, toByte (n div 65536), toByte (n div 256), toByte n]"
    using assms s8 s16 by (simp add: encodeUnsignedInt_def wire3_consts toByte_js_and toByte_252)
  define a where "a = n div 65536 mod 256"
  define b where "b = n div 256 mod 256"
  define c where "c = n mod 256"
  have v: "a * 65536 + b * 256 + c = n" unfolding a_def b_def c_def using assms by (intro bytes3) auto
  have "js_or (js_or (js_shl a 16) (js_shl b 8)) c = a * 65536 + b * 256 + c"
    by (rule js_or_253) (simp_all add: a_def b_def c_def)
  with v have o: "js_or (js_or (js_shl a 16) (js_shl b 8)) c = n" by simp
  have "decodeUnsignedInt [253, toByte (n div 65536), toByte (n div 256), toByte n] 0
      = Inr \<lparr>val = Num (js_or (js_or (js_shl a 16) (js_shl b 8)) c), bytesRead = 4\<rparr>"
    unfolding decodeUnsignedInt_def a_def b_def c_def
    by (simp add: byteVal_toByte byteVal_markers wire3_consts Let_def)
  then show "decodeUnsignedInt [253, toByte (n div 65536), toByte (n div 256), toByte n] 0
           = Inr \<lparr>val = Num n, bytesRead = 4\<rparr>"
    by (simp only: o)
qed

lemma decode_encode_5:
  assumes "16777216 \<le> n" "n < 4294967296"
  shows "encodeUnsignedInt n
           = Inr [254, toByte (n div 16777216), toByte (n div 65536), toByte (n div 256), toByte n]"
    and "decodeUnsignedInt
           [254, toByte (n div 16777216), toByte (n div 65536), toByte (n div 256), toByte n] 0
           = Inr \<lparr>val = Num n, bytesRead = 5\<rparr>"
proof -
  have s8: "toByte (js_and (js_shr n 8) 0xFF) = toByte (n div 2 ^ 8)"
    by (rule toByte_js_shr) simp
  have s16: "toByte (js_and (js_shr n 16) 0xFF) = toByte (n div 2 ^ 16)"
    by (rule toByte_js_shr) simp
  have s24: "toByte (js_and (js_shr n 24) 0xFF) = toByte (n div 2 ^ 24)"
    by (rule toByte_js_shr) simp
  show "encodeUnsignedInt n
           = Inr [254, toByte (n div 16777216), toByte (n div 65536), toByte (n div 256), toByte n]"
    using assms s8 s16 s24
    by (simp add: encodeUnsignedInt_def wire3_consts toByte_js_and toByte_252)
  define a where "a = n div 16777216 mod 256"
  define b where "b = n div 65536 mod 256"
  define c where "c = n div 256 mod 256"
  define d where "d = n mod 256"
  have v: "a * 16777216 + b * 65536 + c * 256 + d = n"
    unfolding a_def b_def c_def d_def using assms by (intro bytes4) auto
  have "decodeUnsignedInt
           [254, toByte (n div 16777216), toByte (n div 65536), toByte (n div 256), toByte n] 0
      = Inr \<lparr>val = Num (a * 16777216 + b * 65536 + c * 256 + d), bytesRead = 5\<rparr>"
    unfolding decodeUnsignedInt_def a_def b_def c_def d_def
    by (simp add: byteVal_toByte byteVal_markers wire3_consts Let_def)
  then show "decodeUnsignedInt
           [254, toByte (n div 16777216), toByte (n div 65536), toByte (n div 256), toByte n] 0
           = Inr \<lparr>val = Num n, bytesRead = 5\<rparr>"
    by (simp only: v)
qed

lemma decode_encode_9:
  assumes "4294967296 \<le> n" "n \<le> 2 ^ 53"
  shows "encodeUnsignedInt n = Inr (255 # writeDoubleLE n)"
    and "length (writeDoubleLE n) = 8"
    and "readDoubleLE_floor (255 # writeDoubleLE n) 1 = Num n"
    and "decodeUnsignedInt (255 # writeDoubleLE n) 0 = Inr \<lparr>val = Num n, bytesRead = 9\<rparr>"
proof -
  show "encodeUnsignedInt n = Inr (255 # writeDoubleLE n)"
    using assms by (simp add: encodeUnsignedInt_def wire3_consts toByte_252)
  show l: "length (writeDoubleLE n) = 8" by (simp add: writeDoubleLE_def length_bytesLE)
  have "0 < n" using assms by simp
  from float64_bits_pos [OF this assms(2)]
  have f: "0 \<le> float64_bits n" "float64_bits n < 2 ^ 64" "floorDouble (float64_bits n) = Num n"
    by simp_all
  have "fromLE (writeDoubleLE n) = float64_bits n mod 256 ^ 8"
    by (simp add: writeDoubleLE_def fromLE_bytesLE)
  also have "\<dots> = float64_bits n" using f by (simp add: mod_pos_pos_trivial)
  finally have fl: "fromLE (writeDoubleLE n) = float64_bits n" .
  show r: "readDoubleLE_floor (255 # writeDoubleLE n) 1 = Num n"
    using l by (simp add: readDoubleLE_floor_def fl f)
  show "decodeUnsignedInt (255 # writeDoubleLE n) 0 = Inr \<lparr>val = Num n, bytesRead = 9\<rparr>"
    unfolding decodeUnsignedInt_def using l r
    by (simp add: byteVal_markers wire3_consts Let_def)
qed

section \<open>Unsigned integers: the layout of the encoding\<close>

text \<open>
  Claim C2. For a non-negative integer \<open>n\<close> below \<open>2 ^ 53\<close> the encoding has the length
  and the first byte of the range table: one byte, \<open>n\<close> itself, up to 215; two bytes
  with a first byte from 216 to 251 up to 9431; three bytes with first byte 252 below
  \<open>2 ^ 16\<close>; four with first byte 253 below \<open>2 ^ 24\<close>; five with first byte 254 below
  \<open>2 ^ 32\<close>; and from \<open>2 ^ 32\<close> on nine bytes, the first 255 and the rest the
  little-endian double of \<open>n\<close>. The encoding of 215 is \<open>[0xD7]\<close>, that of 216 is
  \<open>[0xD8, 0x00]\<close>.
\<close>

theorem encodeUnsignedInt_layout:
  "(0 \<le> n \<and> n \<le> 215 \<longrightarrow>
      encodeUnsignedInt n = Inr [toByte n] \<and> byteVal (toByte n) = n) \<and>
   (216 \<le> n \<and> n \<le> 9431 \<longrightarrow>
      (\<exists>bs. encodeUnsignedInt n = Inr bs \<and> length bs = 2 \<and>
            216 \<le> byteVal (hd bs) \<and> byteVal (hd bs) \<le> 251 \<and>
            byteVal (hd bs) = 216 + (n - 216) div 256 \<and>
            byteVal (bs ! 1) = (n - 216) mod 256)) \<and>
   (9432 \<le> n \<and> n < 65536 \<longrightarrow>
      (\<exists>bs. encodeUnsignedInt n = Inr bs \<and> length bs = 3 \<and> byteVal (hd bs) = 252)) \<and>
   (65536 \<le> n \<and> n < 2 ^ 24 \<longrightarrow>
      (\<exists>bs. encodeUnsignedInt n = Inr bs \<and> length bs = 4 \<and> byteVal (hd bs) = 253)) \<and>
   (2 ^ 24 \<le> n \<and> n < 2 ^ 32 \<longrightarrow>
      (\<exists>bs. encodeUnsignedInt n = Inr bs \<and> length bs = 5 \<and> byteVal (hd bs) = 254)) \<and>
   (2 ^ 32 \<le> n \<and> n < 2 ^ 53 \<longrightarrow>
      (\<exists>bs. encodeUnsignedInt n = Inr bs \<and> length bs = 9 \<and> byteVal (hd bs) = 255 \<and>
            tl bs = writeDoubleLE n \<and> readDoubleLE_floor bs 1 = Num n)) \<and>
   encodeUnsignedInt 215 = Inr [0xD7] \<and>
   encodeUnsignedInt 216 = Inr [0xD8, 0x00]"
proof -
  have 1: "encodeUnsignedInt n = Inr [toByte n] \<and> byteVal (toByte n) = n"
    if "0 \<le> n \<and> n \<le> 215"
    using that decode_encode_1 [of n] by (simp add: byteVal_toByte_id)
  have 2: "\<exists>bs. encodeUnsignedInt n = Inr bs \<and> length bs = 2 \<and>
            216 \<le> byteVal (hd bs) \<and> byteVal (hd bs) \<le> 251 \<and>
            byteVal (hd bs) = 216 + (n - 216) div 256 \<and>
            byteVal (bs ! 1) = (n - 216) mod 256"
    if h: "216 \<le> n \<and> n \<le> 9431"
  proof -
    from h decode_encode_2 [of n]
    have e: "encodeUnsignedInt n = Inr [toByte (216 + (n - 216) div 256), toByte ((n - 216) mod 256)]"
      and r: "216 \<le> 216 + (n - 216) div 256 \<and> 216 + (n - 216) div 256 \<le> 251"
      by simp_all
    have b0: "byteVal (toByte (216 + (n - 216) div 256)) = 216 + (n - 216) div 256"
      using r by (intro byteVal_toByte_id) auto
    have b1: "byteVal (toByte ((n - 216) mod 256)) = (n - 216) mod 256"
      by (simp add: byteVal_toByte)
    show ?thesis using e r by (simp add: b0 b1)
  qed
  have 3: "\<exists>bs. encodeUnsignedInt n = Inr bs \<and> length bs = 3 \<and> byteVal (hd bs) = 252"
    if "9432 \<le> n \<and> n < 65536"
    using that decode_encode_3 [of n] by (simp add: byteVal_markers)
  have 4: "\<exists>bs. encodeUnsignedInt n = Inr bs \<and> length bs = 4 \<and> byteVal (hd bs) = 253"
    if "65536 \<le> n \<and> n < 2 ^ 24"
    using that decode_encode_4 [of n] by (simp add: byteVal_markers)
  have 5: "\<exists>bs. encodeUnsignedInt n = Inr bs \<and> length bs = 5 \<and> byteVal (hd bs) = 254"
    if "2 ^ 24 \<le> n \<and> n < 2 ^ 32"
    using that decode_encode_5 [of n] by (simp add: byteVal_markers)
  have 6: "\<exists>bs. encodeUnsignedInt n = Inr bs \<and> length bs = 9 \<and> byteVal (hd bs) = 255 \<and>
            tl bs = writeDoubleLE n \<and> readDoubleLE_floor bs 1 = Num n"
    if "2 ^ 32 \<le> n \<and> n < 2 ^ 53"
    using that decode_encode_9 [of n] by (simp add: byteVal_markers)
  have 7: "encodeUnsignedInt 215 = Inr [0xD7]"
    by (simp add: encodeUnsignedInt_def wire3_consts toByte_def)
  have 8: "encodeUnsignedInt 216 = Inr [0xD8, 0x00]"
    by (simp add: encodeUnsignedInt_def wire3_consts toByte_def)
  show ?thesis using 1 2 3 4 5 6 7 8 by blast
qed

theorem encodeUnsignedInt_layout_witness:
  "encodeUnsignedInt 100 = Inr [100] \<and>
   (\<exists>bs. encodeUnsignedInt 9431 = Inr bs \<and> length bs = 2 \<and> byteVal (hd bs) = 251 \<and> byteVal (bs ! 1) = 255) \<and>
   (\<exists>bs. encodeUnsignedInt 9432 = Inr bs \<and> length bs = 3 \<and> byteVal (hd bs) = 252) \<and>
   (\<exists>bs. encodeUnsignedInt 65536 = Inr bs \<and> length bs = 4 \<and> byteVal (hd bs) = 253) \<and>
   (\<exists>bs. encodeUnsignedInt 16777216 = Inr bs \<and> length bs = 5 \<and> byteVal (hd bs) = 254) \<and>
   (\<exists>bs. encodeUnsignedInt 4294967296 = Inr bs \<and> length bs = 9 \<and> byteVal (hd bs) = 255 \<and>
         readDoubleLE_floor bs 1 = Num 4294967296)"
  using encodeUnsignedInt_layout [of 100] encodeUnsignedInt_layout [of 9431]
    encodeUnsignedInt_layout [of 9432] encodeUnsignedInt_layout [of 65536]
    encodeUnsignedInt_layout [of 16777216] encodeUnsignedInt_layout [of 4294967296]
  by (auto simp add: toByte_def)

section \<open>Signed integers: the round trip\<close>

lemma decode_encode_unsigned:
  assumes "0 \<le> n" "n \<le> 2 ^ 53"
  shows "\<exists>bs. encodeUnsignedInt n = Inr bs \<and>
              decodeUnsignedInt bs 0 = Inr \<lparr>val = Num n, bytesRead = length bs\<rparr>"
proof -
  consider "n \<le> 215" | "216 \<le> n" "n \<le> 9431" | "9432 \<le> n" "n < 65536"
    | "65536 \<le> n" "n < 16777216" | "16777216 \<le> n" "n < 4294967296" | "4294967296 \<le> n"
    by linarith
  then show ?thesis
  proof cases
    case 1
    with assms decode_encode_1 [of n] show ?thesis by simp
  next
    case 2
    with decode_encode_2 [of n] show ?thesis by simp
  next
    case 3
    with decode_encode_3 [of n] show ?thesis by simp
  next
    case 4
    with decode_encode_4 [of n] show ?thesis by simp
  next
    case 5
    with decode_encode_5 [of n] show ?thesis by simp
  next
    case 6
    with assms decode_encode_9 [of n] show ?thesis by simp
  qed
qed

lemma zigzag_inverse: "unsignedToSigned (Num (signedToUnsigned n)) = Num n"
proof (cases "n < 0")
  case True
  then have "js_rem (- 2 * n - 1) 2 = 1"
    by (simp add: js_rem_def sgn_if) presburger
  with True show ?thesis by (simp add: signedToUnsigned_def)
next
  case False
  then have "js_rem (2 * n) 2 = 0" by (simp add: js_rem_def)
  with False show ?thesis by (simp add: signedToUnsigned_def)
qed

lemma signedToUnsigned_range:
  assumes "\<bar>n\<bar> \<le> 2 ^ 52"
  shows "0 \<le> signedToUnsigned n" "signedToUnsigned n \<le> 2 ^ 53"
  using assms by (auto simp add: signedToUnsigned_def abs_if split: if_splits)

text \<open>
  Claim C1. For every signed integer \<open>n\<close> of magnitude at most \<open>2 ^ 52\<close>,
  \<open>encodeInt64\<close> succeeds, \<open>decodeInt64\<close> at offset 0 of the result gives back \<open>n\<close>,
  and \<open>bytesRead\<close> is the length of the encoding; in particular the zigzag maps are
  inverse to each other on \<open>n\<close>.
\<close>

theorem int64_round_trip:
  assumes "\<bar>n\<bar> \<le> 2 ^ 52"
  shows "(\<exists>bs. encodeInt64 n = Inr bs \<and>
               decodeInt64 bs 0 = Inr \<lparr>val = Num n, bytesRead = length bs\<rparr>) \<and>
         unsignedToSigned (Num (signedToUnsigned n)) = Num n"
proof -
  from decode_encode_unsigned [OF signedToUnsigned_range [OF assms]]
  obtain bs where bs: "encodeUnsignedInt (signedToUnsigned n) = Inr bs"
    "decodeUnsignedInt bs 0 = Inr \<lparr>val = Num (signedToUnsigned n), bytesRead = length bs\<rparr>"
    by blast
  have "decodeInt64 bs 0 = Inr \<lparr>val = Num n, bytesRead = length bs\<rparr>"
    unfolding decodeInt64_def bs by (simp add: zigzag_inverse del: unsignedToSigned.simps)
  with bs(1) show ?thesis by (auto simp add: encodeInt64_def zigzag_inverse simp del: unsignedToSigned.simps)
qed

theorem int64_round_trip_witness:
  "encodeInt64 (- 100) = Inr [0xC7] \<and>
   decodeInt64 [0xC7] 0 = Inr \<lparr>val = Num (- 100), bytesRead = 1\<rparr> \<and>
   (\<exists>bs. encodeInt64 (- (2 ^ 52)) = Inr bs \<and>
         decodeInt64 bs 0 = Inr \<lparr>val = Num (- (2 ^ 52)), bytesRead = length bs\<rparr>) \<and>
   unsignedToSigned (Num (signedToUnsigned (2 ^ 52))) = Num (2 ^ 52)"
proof -
  have e: "encodeInt64 (- 100) = Inr [0xC7]"
    by (simp add: encodeInt64_def signedToUnsigned_def encodeUnsignedInt_def wire3_consts toByte_def)
  from int64_round_trip [of "- 100"] e
  have 1: "decodeInt64 [0xC7] 0 = Inr \<lparr>val = Num (- 100), bytesRead = 1\<rparr>" by simp
  from int64_round_trip [of "- (2 ^ 52)"] int64_round_trip [of "2 ^ 52"] e 1
  show ?thesis by simp
qed

section \<open>An integer inside a longer buffer\<close>

lemma decodeUnsignedInt_shift:
  "decodeUnsignedInt (pre @ bs) (length pre + off) = decodeUnsignedInt bs off"
  by (simp add: decodeUnsignedInt_def readDoubleLE_floor_def nth_append Let_def add.assoc)

lemma decodeUnsignedInt_extend:
  assumes "decodeUnsignedInt bs off = Inr r"
  shows "decodeUnsignedInt (bs @ post) off = Inr r"
proof -
  have w: "form_within bs off"
    using assms decodeUnsignedInt_beyond [of bs off] by (cases "form_within bs off") auto
  then have o: "off < length bs" by (simp add: form_within_def)
  have f: "(bs @ post) ! off = bs ! off" using o by (simp add: nth_append)
  note r = byteVal_range [of "bs ! off"]
  show ?thesis
    using assms w r unfolding decodeUnsignedInt_def form_within_def declared_extra_def f Let_def
    by (auto simp add: wire3_consts nth_append readDoubleLE_floor_def split: if_splits)
qed

section \<open>UTF-8: well-formed strings survive, lone surrogates do not\<close>

text \<open>The steps of the decoder on a sequence that is complete.\<close>

lemma utf8_decode_1:
  "byteVal b < 0x80 \<Longrightarrow> utf8_decode (b # r) = byteVal b # utf8_decode r"
  by simp

lemma utf8_decode_2:
  "0xC2 \<le> byteVal b \<Longrightarrow> byteVal b \<le> 0xDF \<Longrightarrow> continuation 0x80 0xBF c1 \<Longrightarrow>
   utf8_decode (b # c1 # r) = ((byteVal b - 0xC0) * 64 + (byteVal c1 - 0x80)) # utf8_decode r"
  by simp

lemma utf8_decode_3:
  "0xE0 \<le> byteVal b \<Longrightarrow> byteVal b \<le> 0xEF \<Longrightarrow>
   continuation (if byteVal b = 0xE0 then 0xA0 else 0x80) (if byteVal b = 0xED then 0x9F else 0xBF) c1 \<Longrightarrow>
   continuation 0x80 0xBF c2 \<Longrightarrow>
   utf8_decode (b # c1 # c2 # r)
     = ((byteVal b - 0xE0) * 4096 + (byteVal c1 - 0x80) * 64 + (byteVal c2 - 0x80)) # utf8_decode r"
  by (simp add: Let_def)

lemma utf8_decode_4:
  "0xF0 \<le> byteVal b \<Longrightarrow> byteVal b \<le> 0xF4 \<Longrightarrow>
   continuation (if byteVal b = 0xF0 then 0x90 else 0x80) (if byteVal b = 0xF4 then 0x8F else 0xBF) c1 \<Longrightarrow>
   continuation 0x80 0xBF c2 \<Longrightarrow> continuation 0x80 0xBF c3 \<Longrightarrow>
   utf8_decode (b # c1 # c2 # c3 # r)
     = ((byteVal b - 0xF0) * 262144 + (byteVal c1 - 0x80) * 4096
          + (byteVal c2 - 0x80) * 64 + (byteVal c3 - 0x80)) # utf8_decode r"
  by (simp add: Let_def)

declare utf8_decode.simps [simp del]

lemma tail_byte:
  fixes r :: int
  assumes "0 \<le> r" "r < 64"
  shows "byteVal (toByte (0x80 + r)) = 0x80 + r" "continuation 0x80 0xBF (toByte (0x80 + r))"
proof -
  show 1: "byteVal (toByte (0x80 + r)) = 0x80 + r"
    using assms by (intro byteVal_toByte_id) auto
  show "continuation 0x80 0xBF (toByte (0x80 + r))"
    unfolding continuation_def 1 using assms by simp
qed

lemma decode_code_point_1:
  assumes "0 \<le> cp" "cp < 0x80"
  shows "utf8_decode (utf8_of_code_point cp @ rest) = cp # utf8_decode rest"
proof -
  have b: "byteVal (toByte cp) = cp" using assms by (intro byteVal_toByte_id) auto
  have "utf8_decode (toByte cp # rest) = byteVal (toByte cp) # utf8_decode rest"
    by (rule utf8_decode_1) (simp add: b assms)
  then show ?thesis using assms by (simp add: utf8_of_code_point_def b)
qed

lemma decode_code_point_2:
  assumes "0x80 \<le> cp" "cp < 0x800"
  shows "utf8_decode (utf8_of_code_point cp @ rest) = cp # utf8_decode rest"
proof -
  define q where "q = cp div 64"
  define r where "r = cp mod 64"
  have d: "q * 64 + r = cp" by (simp add: q_def r_def)
  have r: "0 \<le> r" "r < 64" by (simp_all add: r_def)
  have "0 \<le> cp" "cp < 32 * 64" using assms by simp_all
  then have q: "0 \<le> q" "q < 32" unfolding q_def by (rule div_bound, simp)+
  have q2: "2 \<le> q" using d r assms(1) by linarith
  have b0: "byteVal (toByte (0xC0 + q)) = 0xC0 + q" using q by (intro byteVal_toByte_id) auto
  note b1 = tail_byte [OF r]
  have "utf8_decode (toByte (0xC0 + q) # toByte (0x80 + r) # rest)
      = ((byteVal (toByte (0xC0 + q)) - 0xC0) * 64 + (byteVal (toByte (0x80 + r)) - 0x80))
          # utf8_decode rest"
    by (rule utf8_decode_2) (use q q2 b1 in \<open>simp_all add: b0\<close>)
  then have "utf8_decode (toByte (0xC0 + q) # toByte (0x80 + r) # rest) = cp # utf8_decode rest"
    by (simp add: b0 b1 d)
  then show ?thesis using assms by (simp add: utf8_of_code_point_def q_def r_def)
qed


lemma decode_code_point_3:
  assumes "0x800 \<le> cp" "cp < 0x10000" "\<not> (0xD800 \<le> cp \<and> cp \<le> 0xDFFF)"
  shows "utf8_decode (utf8_of_code_point cp @ rest) = cp # utf8_decode rest"
proof -
  define d1 where "d1 = cp div 64"
  define q where "q = cp div 4096"
  define m where "m = cp div 64 mod 64"
  define r where "r = cp mod 64"
  have A: "d1 * 64 + r = cp" by (simp add: d1_def r_def)
  have e: "cp div 4096 = d1 div 64" by (simp add: d1_def zdiv_zmult2_eq)
  have B: "q * 64 + m = d1" unfolding q_def m_def e d1_def [symmetric] by simp
  have r: "0 \<le> r" "r < 64" by (simp_all add: r_def)
  have m: "0 \<le> m" "m < 64" by (simp_all add: m_def)
  have "0 \<le> cp" "cp < 16 * 4096" using assms by simp_all
  then have q: "0 \<le> q" "q < 16" unfolding q_def by (rule div_bound, simp)+
  have b0: "byteVal (toByte (0xE0 + q)) = 0xE0 + q" using q by (intro byteVal_toByte_id) auto
  note b1 = tail_byte [OF m]
  note b2 = tail_byte [OF r]
  have lo: "q = 0 \<longrightarrow> 32 \<le> m" using A B r assms(1) by auto
  have hi: "q = 13 \<longrightarrow> m \<le> 31" using A B r m assms(2,3) by auto
  have c1: "continuation (if byteVal (toByte (0xE0 + q)) = 0xE0 then 0xA0 else 0x80)
              (if byteVal (toByte (0xE0 + q)) = 0xED then 0x9F else 0xBF) (toByte (0x80 + m))"
    unfolding continuation_def b0 b1(1) using lo hi m by auto
  have "utf8_decode (toByte (0xE0 + q) # toByte (0x80 + m) # toByte (0x80 + r) # rest)
      = ((byteVal (toByte (0xE0 + q)) - 0xE0) * 4096 + (byteVal (toByte (0x80 + m)) - 0x80) * 64
           + (byteVal (toByte (0x80 + r)) - 0x80)) # utf8_decode rest"
    using _ _ c1 b2(2) by (rule utf8_decode_3) (use q in \<open>simp_all add: b0\<close>)
  moreover have "q * 4096 + m * 64 + r = cp" using A B by linarith
  ultimately have "utf8_decode (toByte (0xE0 + q) # toByte (0x80 + m) # toByte (0x80 + r) # rest)
      = cp # utf8_decode rest"
    by (simp add: b0 b1 b2)
  then show ?thesis using assms by (simp add: utf8_of_code_point_def q_def m_def r_def)
qed

lemma decode_code_point_4:
  assumes "0x10000 \<le> cp" "cp < 0x110000"
  shows "utf8_decode (utf8_of_code_point cp @ rest) = cp # utf8_decode rest"
proof -
  define d1 where "d1 = cp div 64"
  define d2 where "d2 = cp div 4096"
  define q where "q = cp div 262144"
  define m1 where "m1 = cp div 4096 mod 64"
  define m2 where "m2 = cp div 64 mod 64"
  define r where "r = cp mod 64"
  have A: "d1 * 64 + r = cp" by (simp add: d1_def r_def)
  have e: "cp div 4096 = d1 div 64" by (simp add: d1_def zdiv_zmult2_eq)
  have B: "d2 * 64 + m2 = d1" unfolding d2_def m2_def e d1_def [symmetric] by simp
  have e2: "cp div 262144 = d2 div 64" by (simp add: d2_def zdiv_zmult2_eq)
  have C: "q * 64 + m1 = d2" unfolding q_def m1_def e2 d2_def [symmetric] by simp
  have r: "0 \<le> r" "r < 64" by (simp_all add: r_def)
  have m1: "0 \<le> m1" "m1 < 64" by (simp_all add: m1_def)
  have m2: "0 \<le> m2" "m2 < 64" by (simp_all add: m2_def)
  have "0 \<le> cp" "cp < 5 * 262144" using assms by simp_all
  then have q: "0 \<le> q" "q < 5" unfolding q_def by (rule div_bound, simp)+
  have b0: "byteVal (toByte (0xF0 + q)) = 0xF0 + q" using q by (intro byteVal_toByte_id) auto
  note b1 = tail_byte [OF m1]
  note b2 = tail_byte [OF m2]
  note b3 = tail_byte [OF r]
  have v: "q * 262144 + m1 * 4096 + m2 * 64 + r = cp" using A B C by linarith
  have lo: "q = 0 \<longrightarrow> 16 \<le> m1" using v r m2 assms(1) by auto
  have hi: "q = 4 \<longrightarrow> m1 \<le> 15" using v r m2 assms(2) by auto
  have c1: "continuation (if byteVal (toByte (0xF0 + q)) = 0xF0 then 0x90 else 0x80)
              (if byteVal (toByte (0xF0 + q)) = 0xF4 then 0x8F else 0xBF) (toByte (0x80 + m1))"
    unfolding continuation_def b0 b1(1) using lo hi m1 by auto
  have "utf8_decode (toByte (0xF0 + q) # toByte (0x80 + m1) # toByte (0x80 + m2)
                       # toByte (0x80 + r) # rest)
      = ((byteVal (toByte (0xF0 + q)) - 0xF0) * 262144 + (byteVal (toByte (0x80 + m1)) - 0x80) * 4096
           + (byteVal (toByte (0x80 + m2)) - 0x80) * 64
           + (byteVal (toByte (0x80 + r)) - 0x80)) # utf8_decode rest"
    using _ _ c1 b2(2) b3(2) by (rule utf8_decode_4) (use q in \<open>simp_all add: b0\<close>)
  then have "utf8_decode (toByte (0xF0 + q) # toByte (0x80 + m1) # toByte (0x80 + m2)
                       # toByte (0x80 + r) # rest) = cp # utf8_decode rest"
    using v by (simp add: b0 b1 b2 b3)
  then show ?thesis using assms by (simp add: utf8_of_code_point_def q_def m1_def m2_def r_def)
qed

lemma decode_code_point:
  assumes "scalar cp"
  shows "utf8_decode (utf8_of_code_point cp @ rest) = cp # utf8_decode rest"
proof -
  from assms have s: "0 \<le> cp" "cp < 0x110000" "\<not> (0xD800 \<le> cp \<and> cp \<le> 0xDFFF)"
    by (simp_all add: scalar_def)
  consider "cp < 0x80" | "0x80 \<le> cp" "cp < 0x800" | "0x800 \<le> cp" "cp < 0x10000" | "0x10000 \<le> cp"
    by linarith
  then show ?thesis
  proof cases
    case 1
    with s show ?thesis by (intro decode_code_point_1)
  next
    case 2
    then show ?thesis by (intro decode_code_point_2)
  next
    case 3
    with s show ?thesis by (intro decode_code_point_3)
  next
    case 4
    with s show ?thesis by (intro decode_code_point_4)
  qed
qed


lemma utf8_string_code_point:
  "scalar cp \<Longrightarrow>
   utf8_string (utf8_of_code_point cp @ rest) = units_of_code_point cp @ utf8_string rest"
  by (simp add: utf8_string_def decode_code_point)

lemma unitVal_range: "0 \<le> unitVal u" "unitVal u < 0x10000"
proof -
  show "0 \<le> unitVal u" by (simp add: unitVal_def)
  have "uint u < 2 ^ LENGTH(16)" by (rule uint_lt2p)
  then show "unitVal u < 0x10000" by (simp add: unitVal_def)
qed

lemma toUnit_unitVal: "toUnit (unitVal u) = u"
  by (simp add: toUnit_def unitVal_def)

lemma high_not_low: "is_low u \<Longrightarrow> \<not> is_high u"
  by (simp add: is_low_def is_high_def)

lemma unit_alone:
  assumes "\<not> is_high u" "\<not> is_low u"
  shows "scalar (unitVal u)" "units_of_code_point (unitVal u) = [u]"
proof -
  show "scalar (unitVal u)"
    using assms unitVal_range [of u] by (auto simp add: scalar_def is_high_def is_low_def)
  show "units_of_code_point (unitVal u) = [u]"
    using unitVal_range [of u] by (simp add: units_of_code_point_def toUnit_unitVal)
qed

lemma unit_pair:
  assumes "is_high u" "is_low v"
  defines "cp \<equiv> 0x10000 + (unitVal u - 0xD800) * 1024 + (unitVal v - 0xDC00)"
  shows "scalar cp" "units_of_code_point cp = [u, v]"
proof -
  define h where "h = unitVal u - 0xD800"
  define l where "l = unitVal v - 0xDC00"
  have h: "0 \<le> h" "h < 1024" using assms(1) by (simp_all add: is_high_def h_def)
  have l: "0 \<le> l" "l < 1024" using assms(2) by (simp_all add: is_low_def l_def)
  have cp: "cp = 0x10000 + h * 1024 + l" by (simp add: cp_def h_def l_def)
  show "scalar cp" using h l by (simp add: scalar_def cp)
  have d: "(h * 1024 + l) div 1024 = h" using l by simp
  have m: "(h * 1024 + l) mod 1024 = l" using l by simp
  have e: "cp - 0x10000 = h * 1024 + l" by (simp add: cp)
  have "\<not> cp < 0x10000" using h l by (simp add: cp)
  then have "units_of_code_point cp = [toUnit (0xD800 + h), toUnit (0xDC00 + l)]"
    unfolding units_of_code_point_def e d m by simp
  then show "units_of_code_point cp = [u, v]"
    by (simp add: h_def l_def toUnit_unitVal)
qed

lemma loneSurrogate_prev:
  "(case p of None \<Rightarrow> True | Some x \<Rightarrow> \<not> is_high x) \<Longrightarrow>
   loneSurrogate p s = loneSurrogate None s"
  by (cases s) (auto split: option.splits)

lemma utf8_round_trip_from:
  "\<not> loneSurrogate None s \<Longrightarrow> utf8_string (utf8_bytes s) = s"
proof (induction s rule: utf8_bytes.induct)
  case 1
  show ?case by (simp add: utf8_string_def utf8_decode.simps)
next
  case (2 u)
  then have n: "\<not> is_high u" "\<not> is_low u" by simp_all
  have "utf8_string (utf8_of_code_point (unitVal u) @ []) = units_of_code_point (unitVal u) @ utf8_string []"
    using unit_alone(1) [OF n] by (rule utf8_string_code_point)
  then show ?case using n unit_alone(2) [OF n] by (simp add: utf8_string_def utf8_decode.simps)
next
  case (3 u v rest)
  show ?case
  proof (cases "is_high u \<and> is_low v")
    case True
    then have hv: "is_high u" "is_low v" by simp_all
    have "\<not> loneSurrogate (Some v) rest" using "3.prems" by simp
    moreover have "loneSurrogate (Some v) rest = loneSurrogate None rest"
      using high_not_low [OF hv(2)] by (intro loneSurrogate_prev) simp
    ultimately have "utf8_string (utf8_bytes rest) = rest" using "3.IH"(1) True by simp
    then show ?thesis
      using hv utf8_string_code_point [OF unit_pair(1) [OF hv]] unit_pair(2) [OF hv] by simp
  next
    case False
    have n: "\<not> is_high u" "\<not> is_low u" using "3.prems" False by auto
    have "\<not> loneSurrogate (Some u) (v # rest)" using "3.prems" by simp
    moreover have "loneSurrogate (Some u) (v # rest) = loneSurrogate None (v # rest)"
      using n by (intro loneSurrogate_prev) simp
    ultimately have "utf8_string (utf8_bytes (v # rest)) = v # rest"
      using "3.IH"(3) False n by simp
    then show ?thesis
      using False n utf8_string_code_point [OF unit_alone(1) [OF n]] unit_alone(2) [OF n] by simp
  qed
qed

lemma utf8_round_trip: "\<not> hasLoneSurrogate s \<Longrightarrow> utf8_string (utf8_bytes s) = s"
  by (simp add: hasLoneSurrogate_def utf8_round_trip_from)

text \<open>What is not well-formed is replaced, on the way out and on the way in.\<close>

lemma lone_surrogate_replaced:
  "hasLoneSurrogate [0xD800]" "utf8_bytes [0xD800] = [0xEF, 0xBF, 0xBD]"
  "utf8_string [0xEF, 0xBF, 0xBD] = [0xFFFD]"
  by (simp_all add: hasLoneSurrogate_def is_high_def is_low_def unitVal_def toUnit_def
      REPLACEMENT_def utf8_of_code_point_def utf8_string_def utf8_decode.simps byteVal_def
      toByte_def continuation_def units_of_code_point_def)

lemma invalid_utf8_replaced:
  "utf8_string [0xFF] = [0xFFFD] \<and> utf8_string [0xE2, 0x82, 0x41] = [0xFFFD, 0x41] \<and>
   utf8_string [0xC0, 0x80] = [0xFFFD, 0xFFFD]"
  by (simp add: utf8_string_def utf8_decode.simps byteVal_def REPLACEMENT_def continuation_def
      units_of_code_point_def toUnit_def)

section \<open>Strings and messages: the round trip\<close>

lemma decodeInt64_in_context:
  assumes "encodeInt64 n = Inr lb" "\<bar>n\<bar> \<le> 2 ^ 52"
  shows "decodeInt64 (pre @ lb @ post) (length pre) = Inr \<lparr>val = Num n, bytesRead = length lb\<rparr>"
proof -
  from decode_encode_unsigned [OF signedToUnsigned_range [OF assms(2)]] assms(1)
  have d: "decodeUnsignedInt lb 0 = Inr \<lparr>val = Num (signedToUnsigned n), bytesRead = length lb\<rparr>"
    by (auto simp add: encodeInt64_def)
  then have "decodeUnsignedInt (lb @ post) 0
      = Inr \<lparr>val = Num (signedToUnsigned n), bytesRead = length lb\<rparr>"
    by (rule decodeUnsignedInt_extend)
  then have "decodeUnsignedInt (pre @ lb @ post) (length pre + 0)
      = Inr \<lparr>val = Num (signedToUnsigned n), bytesRead = length lb\<rparr>"
    by (simp only: decodeUnsignedInt_shift)
  then show ?thesis
    by (simp add: decodeInt64_def zigzag_inverse del: unsignedToSigned.simps)
qed

lemma encodeInt64_total: "0 \<le> n \<Longrightarrow> \<exists>lb. encodeInt64 n = Inr lb \<and> lb \<noteq> []"
  by (auto simp add: encodeInt64_def signedToUnsigned_def encodeUnsignedInt_def Let_def)

lemma encodeString_total:
  "\<exists>lb. encodeInt64 (int (length (utf8_bytes s))) = Inr lb \<and> lb \<noteq> [] \<and>
        encodeString s = Inr (lb @ utf8_bytes s)"
proof -
  from encodeInt64_total [of "int (length (utf8_bytes s))"]
  obtain lb where "encodeInt64 (int (length (utf8_bytes s))) = Inr lb" "lb \<noteq> []" by auto
  then show ?thesis by (simp add: encodeString_def)
qed

lemma encodeMessage_total:
  "\<exists>lb. encodeInt64 (int (length (utf8_bytes s))) = Inr lb \<and> lb \<noteq> [] \<and>
        encodeMessage s k = Inr (toByte k # lb @ utf8_bytes s)"
  using encodeString_total [of s] by (auto simp add: encodeMessage_def)

lemma adjustOffset_start: "0 < p \<Longrightarrow> adjustOffset (Num (int p)) (p + q) = p"
  by (auto simp add: adjustOffset_def)

lemma adjustOffset_end: "0 < p \<Longrightarrow> adjustOffset (Num (int p + int q)) (p + q) = p + q"
  by (auto simp add: adjustOffset_def)

lemma slice_payload:
  assumes "pre \<noteq> []"
  shows "buffer_slice (pre @ payload) (Num (int (length pre)))
           (Num (int (length pre) + int (length payload))) = payload"
proof -
  have p: "0 < length pre" using assms by simp
  show ?thesis
    unfolding buffer_slice_def Let_def length_append
      adjustOffset_start [OF p] adjustOffset_end [OF p]
    by simp
qed

text \<open>A length prefix followed by that many bytes decodes to the string of these bytes.\<close>

lemma decodeString_in_context:
  assumes "encodeInt64 (int (length payload)) = Inr lb" "int (length payload) \<le> 2 ^ 52"
  shows "decodeString (pre @ lb @ payload) (length pre)
           = Inr \<lparr>val = utf8_string payload,
                  bytesRead = Num (int (length lb) + int (length payload))\<rparr>"
proof -
  have a: "\<bar>int (length payload)\<bar> \<le> 2 ^ 52" using assms(2) by simp
  have d: "decodeInt64 (pre @ lb @ payload) (length pre)
      = Inr \<lparr>val = Num (int (length payload)), bytesRead = length lb\<rparr>"
    using assms(1) a by (rule decodeInt64_in_context)
  have lb: "lb \<noteq> []" using encodeInt64_total [of "int (length payload)"] assms(1) by auto
  have sl: "buffer_slice ((pre @ lb) @ payload) (Num (int (length (pre @ lb))))
           (Num (int (length (pre @ lb)) + int (length payload))) = payload"
    by (rule slice_payload) (simp add: lb)
  show ?thesis
    unfolding decodeString_def d using sl
    by (simp add: Let_def add.assoc)
qed

lemma decodeMessage_encodeMessage_bytes:
  assumes "0 \<le> k" "k \<le> 255" "int (length (utf8_bytes s)) \<le> 2 ^ 52"
  shows "\<exists>buf. encodeMessage s k = Inr buf \<and>
           decodeMessage buf k = Some (utf8_string (utf8_bytes s))"
proof -
  from encodeMessage_total [of s k]
  obtain lb where lb: "encodeInt64 (int (length (utf8_bytes s))) = Inr lb" "lb \<noteq> []"
    "encodeMessage s k = Inr (toByte k # lb @ utf8_bytes s)" by blast
  have "decodeString ([toByte k] @ lb @ utf8_bytes s) (length [toByte k])
           = Inr \<lparr>val = utf8_string (utf8_bytes s),
                  bytesRead = Num (int (length lb) + int (length (utf8_bytes s)))\<rparr>"
    using lb(1) assms(3) by (rule decodeString_in_context)
  then have d: "decodeString (toByte k # lb @ utf8_bytes s) (Suc 0)
           = Inr \<lparr>val = utf8_string (utf8_bytes s),
                  bytesRead = Num (int (length lb) + int (length (utf8_bytes s)))\<rparr>"
    by simp
  have t: "byteVal (toByte k) = k" using assms by (intro byteVal_toByte_id) auto
  have n: "\<not> length (toByte k # lb @ utf8_bytes s) < MIN_BUFFER_LENGTH"
    using lb(2) by (cases lb) (simp_all add: MIN_BUFFER_LENGTH_def)
  have "decodeMessage (toByte k # lb @ utf8_bytes s) k = Some (utf8_string (utf8_bytes s))"
    unfolding decodeMessage_def Let_def using n t by (simp add: d)
  with lb(3) show ?thesis by blast
qed

lemma decodeMessage_encodeMessage:
  assumes "0 \<le> k" "k \<le> 255" "\<not> hasLoneSurrogate s" "int (length (utf8_bytes s)) \<le> 2 ^ 52"
  shows "\<exists>buf. encodeMessage s k = Inr buf \<and> decodeMessage buf k = Some s"
  using decodeMessage_encodeMessage_bytes [OF assms(1,2,4)] utf8_round_trip [OF assms(3)]
  by simp

lemma decodeMessage_other_tag:
  assumes "0 \<le> k" "k \<le> 255" "k' \<noteq> k"
  shows "\<exists>buf. encodeMessage s k = Inr buf \<and> decodeMessage buf k' = None"
proof -
  from encodeMessage_total [of s k]
  obtain lb where lb: "encodeMessage s k = Inr (toByte k # lb @ utf8_bytes s)" by blast
  have t: "byteVal (toByte k) = k" using assms by (intro byteVal_toByte_id) auto
  have "decodeMessage (toByte k # lb @ utf8_bytes s) k' = None"
    unfolding decodeMessage_def Let_def using t assms(3) by simp
  with lb show ?thesis by blast
qed

text \<open>Bytes that are not UTF-8 come out of \<open>decodeMessage\<close> as the replacement character.\<close>

lemma decodeMessage_invalid_utf8: "decodeMessage [0x00, 0x02, 0xFF] 0 = Some [0xFFFD]"
  using invalid_utf8_replaced
  by (simp add: decodeMessage_def decodeString_def decodeInt64_def decodeUnsignedInt_def
      wire3_consts js_rem_def byteVal_def MIN_BUFFER_LENGTH_def buffer_slice_def
      adjustOffset_def)

lemma encodeInt64_small:
  "encodeInt64 1 = Inr [0x02] \<and> encodeInt64 2 = Inr [0x04] \<and> encodeInt64 3 = Inr [0x06] \<and>
   encodeInt64 4 = Inr [0x08] \<and> encodeInt64 5 = Inr [0x0A] \<and> encodeInt64 6 = Inr [0x0C] \<and>
   encodeInt64 7 = Inr [0x0E]"
  by (simp add: encodeInt64_def signedToUnsigned_def encodeUnsignedInt_def wire3_consts toByte_def)

text \<open>
  Claim C3 says that \<open>decodeMessage(encodeMessage(s, k), k)\<close> returns \<open>s\<close> for every
  string \<open>s\<close>. It does not: the string that is the one unit \<open>0xD800\<close>, a high surrogate
  with nothing after it, is encoded as the bytes of the replacement character and comes
  back as the one unit \<open>0xFFFD\<close>. (The property test of the repository skips the
  strings for which \<open>hasLoneSurrogate\<close> holds.)
\<close>

theorem message_round_trip_lone_surrogate_counterexample:
  "encodeMessage [0xD800] 0 = Inr [0x00, 0x06, 0xEF, 0xBF, 0xBD] \<and>
   decodeMessage [0x00, 0x06, 0xEF, 0xBF, 0xBD] 0 = Some [0xFFFD] \<and>
   decodeMessage [0x00, 0x06, 0xEF, 0xBF, 0xBD] 0 \<noteq> Some [0xD800]"
proof -
  note b = lone_surrogate_replaced(2) and r = lone_surrogate_replaced(3)
  have e: "encodeMessage [0xD800] 0 = Inr [0x00, 0x06, 0xEF, 0xBF, 0xBD]"
    unfolding encodeMessage_def encodeString_def b using encodeInt64_small
    by (simp add: toByte_def)
  have l: "encodeInt64 (int (length [0xEF, 0xBF, 0xBD :: byte])) = Inr [0x06]"
    using encodeInt64_small by simp
  have "decodeString ([0x00] @ [0x06] @ [0xEF, 0xBF, 0xBD]) (length [0x00 :: byte])
      = Inr \<lparr>val = utf8_string [0xEF, 0xBF, 0xBD],
             bytesRead = Num (int (length [0x06 :: byte]) + int (length [0xEF, 0xBF, 0xBD :: byte]))\<rparr>"
    using l by (rule decodeString_in_context) simp
  then have d: "decodeMessage [0x00, 0x06, 0xEF, 0xBF, 0xBD] 0 = Some [0xFFFD]"
    by (simp add: decodeMessage_def MIN_BUFFER_LENGTH_def byteVal_def r)
  show ?thesis using e d by simp
qed

text \<open>
  Claim C3, for the strings that are well-formed. For every string \<open>s\<close> without a lone
  surrogate (whose UTF-8 form has at most \<open>2 ^ 52\<close> bytes, which every string of the
  host satisfies) and every tag byte \<open>k\<close>, decoding the encoded message with the tag \<open>k\<close>
  gives back \<open>s\<close>. For every string, well-formed or not, decoding the encoded message
  with another tag byte gives \<open>null\<close>; and \<open>decodeMessage\<close> gives \<open>null\<close> on a buffer
  shorter than two bytes and on one whose string part fails to decode.
  \<open>decodeMessage\<close> has no failure of its own: its result is a string or \<open>null\<close>.
\<close>

theorem message_round_trip_well_formed:
  "(0 \<le> k \<and> k \<le> 255 \<and> \<not> hasLoneSurrogate s \<and> int (length (utf8_bytes s)) \<le> 2 ^ 52 \<longrightarrow>
      (\<exists>buf. encodeMessage s k = Inr buf \<and> decodeMessage buf k = Some s)) \<and>
   (0 \<le> k \<and> k \<le> 255 \<and> 0 \<le> k' \<and> k' \<le> 255 \<and> k' \<noteq> k \<longrightarrow>
      (\<exists>buf. encodeMessage s k = Inr buf \<and> decodeMessage buf k' = None)) \<and>
   (length buffer < 2 \<longrightarrow> decodeMessage buffer k = None) \<and>
   ((\<exists>e. decodeString buffer 1 = Inl e) \<longrightarrow> decodeMessage buffer k = None)"
proof -
  have 3: "length buffer < 2 \<longrightarrow> decodeMessage buffer k = None"
    by (simp add: decodeMessage_def MIN_BUFFER_LENGTH_def)
  have 4: "(\<exists>e. decodeString buffer 1 = Inl e) \<longrightarrow> decodeMessage buffer k = None"
    by (auto simp add: decodeMessage_def Let_def)
  show ?thesis
    using decodeMessage_encodeMessage [of k s] decodeMessage_other_tag [of k k' s] 3 4
    by blast
qed

text \<open>
  The string of the witness is \<open>h\<close>, \<open>U+00E9\<close> and \<open>U+1F600\<close>, the last as the surrogate
  pair \<open>D83D DE00\<close>: one, two and four bytes of UTF-8.
\<close>

theorem message_round_trip_well_formed_witness:
  "\<not> hasLoneSurrogate [0x68, 0xE9, 0xD83D, 0xDE00] \<and>
   encodeMessage [0x68, 0xE9, 0xD83D, 0xDE00] 0
     = Inr [0x00, 0x0E, 0x68, 0xC3, 0xA9, 0xF0, 0x9F, 0x98, 0x80] \<and>
   decodeMessage [0x00, 0x0E, 0x68, 0xC3, 0xA9, 0xF0, 0x9F, 0x98, 0x80] 0
     = Some [0x68, 0xE9, 0xD83D, 0xDE00] \<and>
   decodeMessage [0x00, 0x0E, 0x68, 0xC3, 0xA9, 0xF0, 0x9F, 0x98, 0x80] 1 = None \<and>
   decodeMessage [0x00] 0 = None \<and>
   decodeString [0x00, 0x04] 1 = Inl StringTooShort \<and>
   decodeMessage [0x00, 0x04] 0 = None"
proof -
  have w: "\<not> hasLoneSurrogate [0x68, 0xE9, 0xD83D, 0xDE00]"
    by (simp add: hasLoneSurrogate_def is_high_def is_low_def unitVal_def)
  have b: "utf8_bytes [0x68, 0xE9, 0xD83D, 0xDE00] = [0x68, 0xC3, 0xA9, 0xF0, 0x9F, 0x98, 0x80]"
    by (simp add: is_high_def is_low_def unitVal_def utf8_of_code_point_def toByte_def)
  have e: "encodeMessage [0x68, 0xE9, 0xD83D, 0xDE00] 0
      = Inr [0x00, 0x0E, 0x68, 0xC3, 0xA9, 0xF0, 0x9F, 0x98, 0x80]"
    unfolding encodeMessage_def encodeString_def b using encodeInt64_small
    by (simp add: toByte_def)
  have d: "decodeString [0x00, 0x04] 1 = Inl StringTooShort"
    by (simp add: decodeString_def decodeInt64_def decodeUnsignedInt_def wire3_consts
        byteVal_def js_rem_def)
  show ?thesis
    using message_round_trip_well_formed [of 0 "[0x68, 0xE9, 0xD83D, 0xDE00]" 1 "[0x00]"]
      message_round_trip_well_formed [of 0 "[0x68, 0xE9, 0xD83D, 0xDE00]" 1 "[0x00, 0x04]"]
      w b e d
    by simp
qed

section \<open>A negative length prefix\<close>

lemma decodeInt64_neg1: "decodeInt64 [1] 0 = Inr \<lparr>val = Num (- 1), bytesRead = 1\<rparr>"
  by (simp add: decodeInt64_def decodeUnsignedInt_def wire3_consts js_rem_def byteVal_def)

lemma decodeInt64_neg1_at1:
  "decodeInt64 [b, 1] (Suc 0) = Inr \<lparr>val = Num (- 1), bytesRead = 1\<rparr>"
  by (simp add: decodeInt64_def decodeUnsignedInt_def wire3_consts js_rem_def byteVal_def)

text \<open>
  Claim C10. The length prefix of a string is a zigzag integer, and a prefix that decodes
  to a negative length is not rejected. The one-byte buffer \<open>[0x01]\<close> declares the
  length \<open>-1\<close>: \<open>decodeString\<close> does not fail on it but returns the empty string with
  \<open>bytesRead = 0\<close> (one prefix byte plus the declared length), and so
  \<open>decodeMessage([k, 0x01], k)\<close> is the empty string, not \<open>null\<close>, for every tag byte
  \<open>k\<close>.
\<close>

theorem negative_length_prefix_accepted:
  "decodeInt64 [0x01] 0 = Inr \<lparr>val = Num (- 1), bytesRead = 1\<rparr> \<and>
   decodeString [0x01] 0 = Inr \<lparr>val = [], bytesRead = Num 0\<rparr> \<and>
   decodeMessage [k, 0x01] (byteVal k) = Some []"
  by (simp add: decodeString_def decodeMessage_def decodeInt64_neg1 decodeInt64_neg1_at1
      MIN_BUFFER_LENGTH_def buffer_slice_def adjustOffset_def utf8_string_def utf8_decode.simps)

theorem negative_length_prefix_accepted_witness:
  "decodeString [0x01] 0 = Inr \<lparr>val = [], bytesRead = Num 0\<rparr> \<and>
   decodeMessage [0x07, 0x01] 7 = Some []"
  using negative_length_prefix_accepted [of 7] by (simp add: byteVal_def)

section \<open>Session identifiers\<close>

lemma toString_small: "n < 10 \<Longrightarrow> toString n = [digit_char n]"
  by (simp add: toString.simps)

lemma toString_large: "10 \<le> n \<Longrightarrow> toString n = toString (n div 10) @ [digit_char (n mod 10)]"
  by (subst toString.simps) simp

lemma toString_length:
  "n < 10 ^ Suc k \<Longrightarrow> k = 0 \<or> 10 ^ k \<le> n \<Longrightarrow> length (toString n) = Suc k"
proof (induction k arbitrary: n)
  case 0
  then show ?case by (simp add: toString_small)
next
  case (Suc k)
  from Suc.prems have lo: "10 ^ Suc k \<le> n" by simp
  have "(10::nat) \<le> 10 ^ Suc k" by simp
  with lo have n10: "10 \<le> n" by linarith
  have a: "n div 10 < 10 ^ Suc k"
    using Suc.prems(1) by (simp add: less_mult_imp_div_less mult.commute)
  have b: "10 ^ k \<le> n div 10"
    using lo by (simp add: less_eq_div_iff_mult_less_eq mult.commute)
  have "length (toString (n div 10)) = Suc k"
    using a b by (intro Suc.IH) auto
  then show ?case by (simp add: toString_large [OF n10])
qed

lemma digit_char_cases:
  assumes "d < 10"
  shows "digit_char d \<in> set ''0123456789'' \<and> of_char (digit_char d) = 48 + d"
proof -
  from assms have "d = 0 \<or> d = 1 \<or> d = 2 \<or> d = 3 \<or> d = 4 \<or> d = 5 \<or> d = 6 \<or> d = 7 \<or> d = 8 \<or> d = 9"
    by arith
  then show ?thesis by (auto simp add: digit_char_def)
qed

lemma toString_digits: "set (toString n) \<subseteq> set ''0123456789''"
proof (induction n rule: toString.induct)
  case (1 n)
  show ?case
  proof (cases "n < 10")
    case True
    then show ?thesis using digit_char_cases [of n] by (simp add: toString_small)
  next
    case False
    then have IH: "set (toString (n div 10)) \<subseteq> set ''0123456789''" using 1 by simp
    have "n mod 10 < 10" by simp
    from digit_char_cases [OF this] IH False show ?thesis
      by (simp add: toString_large)
  qed
qed

lemma decimal_value_snoc:
  "decimal_value (s @ [c]) = 10 * decimal_value s + (of_char c - 48)"
  by (simp add: decimal_value_def)

lemma decimal_value_toString: "decimal_value (toString n) = n"
proof (induction n rule: toString.induct)
  case (1 n)
  show ?case
  proof (cases "n < 10")
    case True
    then show ?thesis using digit_char_cases [of n]
      by (simp add: toString_small decimal_value_def)
  next
    case False
    then have IH: "decimal_value (toString (n div 10)) = n div 10" using 1 by simp
    have "n mod 10 < 10" by simp
    from digit_char_cases [OF this] have "of_char (digit_char (n mod 10)) - 48 = n mod 10"
      by simp
    with IH False show ?thesis
      by (simp add: toString_large decimal_value_snoc)
  qed
qed

lemma padEnd_short_fill:
  assumes "length s < n" "n - length s \<le> length p"
  shows "padEnd s n p = s @ take (n - length s) p"
proof -
  obtain m where m: "n - length s = Suc m" using assms(1) by (cases "n - length s") auto
  have p: "p \<noteq> []" using assms m by auto
  have "take (Suc m) (concat (replicate (Suc m) p)) = take (Suc m) p"
    using assms(2) m by simp
  then show ?thesis using assms p m by (simp add: padEnd_def Let_def)
qed


lemma seed_hex: "set SESSION_ID_PADDING_CHARS \<subseteq> set ''0123456789abcdef''"
  by (simp add: SESSION_ID_PADDING_CHARS_def)

lemma seed_length: "length SESSION_ID_PADDING_CHARS = 40"
  by (simp add: SESSION_ID_PADDING_CHARS_def)

text \<open>
  Claim C9. For every random number \<open>r\<close> from 10000 up to, not including, 1000000
  (the draw is \<open>r - SESSION_ID_MIN\<close>), the session identifier has exactly 40
  characters; it begins with the decimal digits of \<open>r\<close>, five or six of them; the
  rest is the beginning of the fixed seed, cut so that the length is 40; and every
  character is a digit or one of the letters \<open>a\<close> to \<open>f\<close>.
\<close>

theorem session_id_format:
  assumes "10000 \<le> r" and "r < 1000000"
  shows "r - SESSION_ID_MIN < SESSION_ID_RANGE \<and>
     decimal_value (toString r) = r \<and>
     set (toString r) \<subseteq> set ''0123456789'' \<and>
     (length (toString r) = 5 \<or> length (toString r) = 6) \<and>
     length (generateSessionId (r - SESSION_ID_MIN)) = 40 \<and>
     take (length (toString r)) (generateSessionId (r - SESSION_ID_MIN)) = toString r \<and>
     drop (length (toString r)) (generateSessionId (r - SESSION_ID_MIN))
       = take (40 - length (toString r)) SESSION_ID_PADDING_CHARS \<and>
     generateSessionId (r - SESSION_ID_MIN)
       = toString r @ take (40 - length (toString r)) SESSION_ID_PADDING_CHARS \<and>
     set (generateSessionId (r - SESSION_ID_MIN)) \<subseteq> set ''0123456789abcdef''"
proof -
  define k where "k = length (toString r)"
  have rr: "r - SESSION_ID_MIN + SESSION_ID_MIN = r" "r - SESSION_ID_MIN < SESSION_ID_RANGE"
    using assms by (simp_all add: SESSION_ID_MIN_def SESSION_ID_RANGE_def)
  have k: "k = 5 \<or> k = 6"
  proof (cases "r < 100000")
    case True
    then have "length (toString r) = Suc 4" using assms by (intro toString_length) auto
    then show ?thesis by (simp add: k_def)
  next
    case False
    then have "length (toString r) = Suc 5" using assms by (intro toString_length) auto
    then show ?thesis by (simp add: k_def)
  qed
  have g: "generateSessionId (r - SESSION_ID_MIN) = toString r @ take (40 - k) SESSION_ID_PADDING_CHARS"
    unfolding generateSessionId_def Let_def rr SESSION_ID_PADDING_LENGTH_def k_def
    using k by (intro padEnd_short_fill) (auto simp add: seed_length k_def)
  have d: "set (toString r) \<subseteq> set ''0123456789''" by (rule toString_digits)
  have "set ''0123456789'' \<subseteq> set ''0123456789abcdef''" by simp
  with d have d': "set (toString r) \<subseteq> set ''0123456789abcdef''" by (rule subset_trans)
  have "set (take (40 - k) SESSION_ID_PADDING_CHARS) \<subseteq> set SESSION_ID_PADDING_CHARS"
    by (rule set_take_subset)
  then have t: "set (take (40 - k) SESSION_ID_PADDING_CHARS) \<subseteq> set ''0123456789abcdef''"
    using seed_hex by (rule subset_trans)
  have h: "set (generateSessionId (r - SESSION_ID_MIN)) \<subseteq> set ''0123456789abcdef''"
    unfolding g using d' t by simp
  have l: "length (generateSessionId (r - SESSION_ID_MIN)) = 40"
    unfolding g using k by (auto simp add: seed_length k_def)
  have tk: "take k (generateSessionId (r - SESSION_ID_MIN)) = toString r"
    unfolding g by (simp add: k_def)
  have dr: "drop k (generateSessionId (r - SESSION_ID_MIN)) = take (40 - k) SESSION_ID_PADDING_CHARS"
    unfolding g by (simp add: k_def)
  show ?thesis
    using rr(2) decimal_value_toString [of r] d k l tk dr g h unfolding k_def by blast
qed

theorem session_id_format_witness:
  "generateSessionId 0 = ''10000c04b8f7b594cdeedebc2a8029b82943b0a6'' \<and>
   length (generateSessionId 0) = 40 \<and>
   length (generateSessionId 989999) = 40 \<and>
   set (generateSessionId 989999) \<subseteq> set ''0123456789abcdef''"
proof -
  have t: "toString 10000 = ''10000''"
    by (simp add: toString.simps digit_char_def)
  have a: "generateSessionId (10000 - SESSION_ID_MIN) = generateSessionId 0"
    "generateSessionId (999999 - SESSION_ID_MIN) = generateSessionId 989999"
    by (simp_all add: SESSION_ID_MIN_def)
  have p: "(10000::nat) \<le> 10000" "(10000::nat) < 1000000"
    and q: "(10000::nat) \<le> 999999" "(999999::nat) < 1000000" by simp_all
  note f = session_id_format [OF p, unfolded a t]
  note g = session_id_format [OF q, unfolded a]
  from f have 1: "generateSessionId 0 = ''10000'' @ take (40 - length ''10000'') SESSION_ID_PADDING_CHARS"
    by blast
  from f have 2: "length (generateSessionId 0) = 40" by blast
  from g have 3: "length (generateSessionId 989999) = 40" by blast
  from g have 4: "set (generateSessionId 989999) \<subseteq> set ''0123456789abcdef''" by blast
  from 1 have "generateSessionId 0 = ''10000c04b8f7b594cdeedebc2a8029b82943b0a6''"
    by (simp add: SESSION_ID_PADDING_CHARS_def)
  with 2 3 4 show ?thesis by blast
qed

section \<open>The example connections\<close>

lemma st_delay_eq: "st_delay = \<lparr>duVariant = 0, maxRetries = 2, sessionId = ''s1'',
    cookie = ''sid=s1'', connectionId = None, clientId = None,
    leaderId = None, readyState = CONNECTING, onopen = False,
    onmessage = False, onclose = False, onerror = False, onsetup = False,
    onleaderdisconnect = False, ws = None, setupCalled = False,
    isReady = False, retryCount = 0, retryTimeout = None, messageQueue = [],
    initialTimer = True, fired = [], discarded = []\<rparr>"
  by (simp add: st_delay_def new_LamderaWebSocket_def truthy_def num_or_def
      createSessionCookie_def DEFAULT_DU_VARIANT_def Let_def)

lemma st_conn_eq: "st_conn = \<lparr>duVariant = 0, maxRetries = 2, sessionId = ''s1'',
    cookie = ''sid=s1'', connectionId = None, clientId = None,
    leaderId = None, readyState = CONNECTING, onopen = False,
    onmessage = False, onclose = False, onerror = False, onsetup = False,
    onleaderdisconnect = True,
    ws = Some \<lparr>sent = [], closeCalls = [], sockReadyState = CONNECTING, handlersAttached = True\<rparr>,
    setupCalled = False,
    isReady = False, retryCount = 0, retryTimeout = None, messageQueue = [],
    initialTimer = False, fired = [], discarded = []\<rparr>"
  by (simp add: st_conn_def st_delay_eq initial_timer_fires_def initWebSocket_def syncReadyState_def)

lemma ws_onopen_st_conn: "ws_onopen st_conn = Inr st_open"
  by (simp add: st_open_def st_conn_eq ws_onopen_def)

lemma st_open_eq: "st_open = \<lparr>duVariant = 0, maxRetries = 2, sessionId = ''s1'',
    cookie = ''sid=s1'', connectionId = None, clientId = None,
    leaderId = None, readyState = OPEN, onopen = False,
    onmessage = False, onclose = False, onerror = False, onsetup = False,
    onleaderdisconnect = True,
    ws = Some \<lparr>sent = [], closeCalls = [], sockReadyState = CONNECTING, handlersAttached = True\<rparr>,
    setupCalled = False,
    isReady = True, retryCount = 0, retryTimeout = None, messageQueue = [],
    initialTimer = False, fired = [], discarded = []\<rparr>"
  by (simp add: st_open_def st_conn_eq ws_onopen_def)

lemma st_hand_eq: "st_hand = \<lparr>duVariant = 0, maxRetries = 2, sessionId = ''s1'',
    cookie = ''sid=s1'', connectionId = Some ''X1'', clientId = Some ''X1'',
    leaderId = None, readyState = OPEN, onopen = False,
    onmessage = False, onclose = False, onerror = False, onsetup = False,
    onleaderdisconnect = True,
    ws = Some \<lparr>sent = [], closeCalls = [], sockReadyState = CONNECTING, handlersAttached = True\<rparr>,
    setupCalled = False,
    isReady = True, retryCount = 0, retryTimeout = None, messageQueue = [],
    initialTimer = False, fired = [], discarded = []\<rparr>"
  by (simp add: st_hand_def st_open_eq ws_onmessage_def on_protocol_def truthy_def Let_def)

lemma st_torn_eq: "st_torn = \<lparr>duVariant = 0, maxRetries = 2, sessionId = ''s1'',
    cookie = ''sid=s1'', connectionId = None, clientId = None,
    leaderId = None, readyState = CONNECTING, onopen = False,
    onmessage = False, onclose = False, onerror = False, onsetup = False,
    onleaderdisconnect = True, ws = None, setupCalled = False,
    isReady = False, retryCount = 1, retryTimeout = Some Pending, messageQueue = [],
    initialTimer = False, fired = [],
    discarded = [\<lparr>sent = [], closeCalls = [(None, None)], sockReadyState = CONNECTING,
                  handlersAttached = False\<rparr>]\<rparr>"
  by (simp add: st_torn_def st_hand_eq ws_onmessage_def evaluateLeaderStatus_def
      applyLeaderStatusChange_def handleLeaderDisconnection_def disconnectInternal_def
      truthy_def Let_def)

lemma clientId_st_hand: "clientId st_hand = Some ''X1''"
  by (simp add: st_hand_eq)

lemma clientId_st_open: "clientId st_open = None"
  by (simp add: st_open_eq)

text \<open>The examples are states a connection really gets into.\<close>

lemma reachable_st_delay: "reachable st_delay"
  unfolding st_delay_def by (rule reachable.constructed)

lemma reachable_st_conn: "reachable st_conn"
  unfolding st_conn_def
  by (rule reachable.initial_timer, rule reachable.set_onleaderdisconnect,
      rule reachable_st_delay) (simp add: st_delay_eq)

lemma reachable_st_open: "reachable st_open"
  using reachable_st_conn _ ws_onopen_st_conn
  by (rule reachable.socket_opened) (simp add: st_conn_eq)

lemma reachable_st_hand: "reachable st_hand"
  unfolding st_hand_def using reachable_st_open
  by (rule reachable.socket_frame) (simp add: st_open_eq)

lemma reachable_st_torn: "reachable st_torn"
  unfolding st_torn_def using reachable_st_hand
  by (rule reachable.socket_frame) (simp add: st_hand_eq)

lemma st_again_fields:
  "clientId st_again = None" "readyState st_again = OPEN" "retryCount st_again = 1"
  "maxRetries st_again = 2" "fired st_again = []" "onleaderdisconnect st_again"
  "sessionId st_again = generateSessionId 0"
  by (simp_all add: st_again_def st_torn_eq retry_timer_fires_def initWebSocket_def syncReadyState_def
      ws_onopen_def Let_def)

lemma ws_onopen_retry: "ws_onopen (retry_timer_fires 0 st_torn) = Inr st_again"
  by (simp add: st_again_def st_torn_eq retry_timer_fires_def initWebSocket_def syncReadyState_def
      ws_onopen_def Let_def)

lemma reachable_st_again: "reachable st_again"
proof -
  have r: "reachable (retry_timer_fires 0 st_torn)"
    using reachable_st_torn by (rule reachable.retry_timer) (simp add: st_torn_eq)
  have w: "ws (retry_timer_fires 0 st_torn)
      = Some \<lparr>sent = [], closeCalls = [], sockReadyState = CONNECTING, handlersAttached = True\<rparr>"
    by (simp add: retry_timer_fires_def initWebSocket_def syncReadyState_def Let_def)
  from r w ws_onopen_retry show ?thesis by (rule reachable.socket_opened)
qed


section \<open>What holds in every state of a connection\<close>

lemma conn_inv_new: "conn_inv (new_LamderaWebSocket opts draw)"
  by (simp add: conn_inv_def new_LamderaWebSocket_def Let_def truthy_def)

lemma conn_inv_initWebSocket: "conn_inv st \<Longrightarrow> conn_inv (initWebSocket st)"
  by (simp add: conn_inv_def initWebSocket_def syncReadyState_def)

lemma conn_inv_failed: "conn_inv st \<Longrightarrow> conn_inv (initWebSocket_failed st)"
  by (simp add: conn_inv_def initWebSocket_failed_def Let_def)

lemma conn_inv_onopen: "conn_inv st \<Longrightarrow> ws st = Some sock \<Longrightarrow> ws_onopen st = Inr st' \<Longrightarrow> conn_inv st'"
  by (auto simp add: conn_inv_def ws_onopen_def Let_def)

lemma conn_inv_protocol: "conn_inv st \<Longrightarrow> conn_inv (on_protocol cid st)"
  by (auto simp add: conn_inv_def on_protocol_def Let_def)

lemma conn_inv_election:
  "conn_inv st \<Longrightarrow> conn_inv (snd (applyLeaderStatusChange (evaluateLeaderStatus l st) st))"
  by (auto simp add: conn_inv_def applyLeaderStatusChange_def evaluateLeaderStatus_def
      handleLeaderDisconnection_def disconnectInternal_def Let_def truthy_def
      split: option.splits)

lemma conn_inv_onmessage: "conn_inv st \<Longrightarrow> conn_inv (ws_onmessage p st)"
proof (cases p)
  case (Election l)
  assume "conn_inv st"
  then show ?thesis unfolding Election ws_onmessage_def using conn_inv_election by simp
next
  case (Message d sid cid)
  assume "conn_inv st"
  then show ?thesis unfolding Message by (simp add: ws_onmessage_def conn_inv_def)
next
  case (Protocol sid cid)
  assume "conn_inv st"
  then show ?thesis unfolding Protocol by (simp add: ws_onmessage_def conn_inv_protocol)
next
  case (ParseError e)
  assume "conn_inv st"
  then show ?thesis unfolding ParseError by (simp add: ws_onmessage_def)
qed

lemma conn_inv_send: "conn_inv st \<Longrightarrow> send data st = Inr st' \<Longrightarrow> conn_inv st'"
  by (auto simp add: conn_inv_def send_def split: if_splits sum.splits option.splits)

lemma conn_inv_close: "conn_inv st \<Longrightarrow> conn_inv (close code reason st)"
  by (auto simp add: conn_inv_def close_def Let_def split: option.splits)

lemma reachable_conn_inv: "reachable st \<Longrightarrow> conn_inv st"
proof (induction rule: reachable.induct)
  case (constructed opts draw)
  show ?case by (rule conn_inv_new)
next
  case (initial_timer st)
  then show ?case
    unfolding initial_timer_fires_def by (intro conn_inv_initWebSocket) (simp add: conn_inv_def)
next
  case (initial_failed st)
  then show ?case by (intro conn_inv_failed) (simp add: conn_inv_def)
next
  case (socket_opened st sock st')
  then show ?case using conn_inv_onopen by blast
next
  case (socket_frame st sock p)
  then show ?case by (simp add: conn_inv_onmessage)
next
  case (socket_closed st sock)
  then show ?case by (simp add: conn_inv_def ws_onclose_def Let_def)
next
  case (socket_error st sock)
  then show ?case by (simp add: conn_inv_def ws_onerror_def)
next
  case (socket_state st sock rs)
  then show ?case by (simp add: conn_inv_def)
next
  case (synced st)
  then show ?case by (auto simp add: conn_inv_def syncReadyState_def split: option.splits)
next
  case (retry_timer st draw)
  then show ?case
    unfolding retry_timer_fires_def Let_def
    by (intro conn_inv_initWebSocket) (simp add: conn_inv_def)
next
  case (retry_failed st draw)
  then show ?case by (intro conn_inv_failed) (simp add: conn_inv_def)
next
  case (sent st data st')
  then show ?case using conn_inv_send by blast
next
  case (closed st code reason)
  then show ?case by (simp add: conn_inv_close)
qed (simp_all add: conn_inv_def)

lemma open_has_socket: "reachable st \<Longrightarrow> readyState st = OPEN \<Longrightarrow> ws st \<noteq> None"
  using reachable_conn_inv [of st] by (simp add: conn_inv_def)

lemma exhaustion_unreachable:
  "reachable st \<Longrightarrow> 1 \<le> maxRetries st \<Longrightarrow> OnLeaderDisconnect n \<notin> set (fired st)"
  using reachable_conn_inv [of st] by (simp add: conn_inv_def)

lemma retry_count_at_most_one: "reachable st \<Longrightarrow> retryCount st = 0 \<or> retryCount st = 1"
  using reachable_conn_inv [of st] by (simp add: conn_inv_def)

section \<open>The connection: sending\<close>

text \<open>
  The frame of a payload: the envelope with the four members \<open>t\<close>, \<open>s\<close>, \<open>c\<close> and \<open>b\<close>,
  where \<open>b\<close> is the base64 text of the tag byte, the length prefix and the UTF-8 bytes
  of the payload. The framing cannot fail, since the length is not negative.
\<close>

lemma createTransportMessage_frame:
  "\<exists>lb. encodeInt64 (int (length (utf8_bytes message))) = Inr lb \<and>
     createTransportMessage sid cid message dv
       = Inr (JSON_stringify
           [(''t'', ''ToBackend''), (''s'', sid), (''c'', or_else cid sid),
            (''b'', base64 (toByte dv # lb @ utf8_bytes message))])"
  using encodeMessage_total [of message dv] by (auto simp add: createTransportMessage_def)

lemma utf8_bytes_ping: "utf8_bytes (ascii ''ping'') = [0x70, 0x69, 0x6E, 0x67]"
  by (simp add: ascii_def toUnit_def is_high_def is_low_def unitVal_def utf8_of_code_point_def
      toByte_def)

lemma base64_ping: "base64 [0x00, 0x08, 0x70, 0x69, 0x6E, 0x67] = ''AAhwaW5n''"
  by (simp add: byteVal_def base64_char_def base64_alphabet_def)

lemma frame_ping:
  \<open>JSON_stringify [(''t'', ''ToBackend''), (''s'', ''s1''), (''c'', c), (''b'', ''AAhwaW5n'')]
     = ''{"t":"ToBackend","s":"s1","c":'' @ json_string c @ '',"b":"AAhwaW5n"}''\<close>
  by (simp add: JSON_stringify_def json_string_def json_escape_def)

text \<open>
  Claim C7. \<open>send(data)\<close> by case. While the retry count is positive and at most
  \<open>maxRetries\<close> it returns without sending or queuing anything. Otherwise, in the
  state CONNECTING the framed transport message is appended to the message queue; in
  the state OPEN it is sent at once on the socket, which an open connection always
  has; in every other state \<open>send\<close> throws. The framed message is the JSON text of the
  envelope: \<open>t\<close> is \<open>ToBackend\<close>, \<open>s\<close> the session id, \<open>c\<close> the connection id or, while
  there is none, the session id, and \<open>b\<close> the base64 text of the encoded message, which
  is the tag byte \<open>duVariant\<close>, the length prefix of the UTF-8 bytes of \<open>data\<close>, and these
  bytes. The framing cannot fail.
\<close>

theorem send_by_case:
  "(0 < retryCount st \<and> retryCount st \<le> maxRetries st \<longrightarrow> send data st = Inr st) \<and>
   (\<not> (0 < retryCount st \<and> retryCount st \<le> maxRetries st) \<and> readyState st = CONNECTING \<longrightarrow>
      (\<exists>lb. encodeInt64 (int (length (utf8_bytes data))) = Inr lb \<and>
         encodeMessage data (duVariant st) = Inr (toByte (duVariant st) # lb @ utf8_bytes data) \<and>
         send data st = Inr (st\<lparr>messageQueue := messageQueue st @
           [JSON_stringify
              [(''t'', ''ToBackend''), (''s'', sessionId st),
               (''c'', or_else (connectionId st) (sessionId st)),
               (''b'', base64 (toByte (duVariant st) # lb @ utf8_bytes data))]]\<rparr>))) \<and>
   (\<not> (0 < retryCount st \<and> retryCount st \<le> maxRetries st) \<and> readyState st = OPEN \<longrightarrow>
      (\<exists>lb. encodeInt64 (int (length (utf8_bytes data))) = Inr lb \<and>
         encodeMessage data (duVariant st) = Inr (toByte (duVariant st) # lb @ utf8_bytes data) \<and>
         (\<forall>sock. ws st = Some sock \<longrightarrow>
            send data st = Inr (st\<lparr>ws := Some (sock\<lparr>sent := sent sock @
              [JSON_stringify
                 [(''t'', ''ToBackend''), (''s'', sessionId st),
                  (''c'', or_else (connectionId st) (sessionId st)),
                  (''b'', base64 (toByte (duVariant st) # lb @ utf8_bytes data))]]\<rparr>)\<rparr>)))) \<and>
   (reachable st \<and> readyState st = OPEN \<longrightarrow> (\<exists>sock. ws st = Some sock)) \<and>
   (\<not> (0 < retryCount st \<and> retryCount st \<le> maxRetries st) \<and>
    readyState st \<noteq> CONNECTING \<and> readyState st \<noteq> OPEN \<longrightarrow> send data st = Inl NotOpen)"
proof -
  obtain lb where l: "encodeInt64 (int (length (utf8_bytes data))) = Inr lb"
    and e: "encodeMessage data (duVariant st) = Inr (toByte (duVariant st) # lb @ utf8_bytes data)"
    using encodeMessage_total [of data "duVariant st"] by blast
  have f: "createTransportMessage (sessionId st) (connectionId st) data (duVariant st)
      = Inr (JSON_stringify
           [(''t'', ''ToBackend''), (''s'', sessionId st),
            (''c'', or_else (connectionId st) (sessionId st)),
            (''b'', base64 (toByte (duVariant st) # lb @ utf8_bytes data))])"
    by (simp add: createTransportMessage_def e)
  have o: "reachable st \<and> readyState st = OPEN \<longrightarrow> (\<exists>sock. ws st = Some sock)"
    using open_has_socket [of st] by auto
  have 1: "0 < retryCount st \<and> retryCount st \<le> maxRetries st \<longrightarrow> send data st = Inr st"
    by (simp add: send_def)
  have 2: "\<not> (0 < retryCount st \<and> retryCount st \<le> maxRetries st) \<and> readyState st = CONNECTING \<longrightarrow>
      send data st = Inr (st\<lparr>messageQueue := messageQueue st @
           [JSON_stringify
              [(''t'', ''ToBackend''), (''s'', sessionId st),
               (''c'', or_else (connectionId st) (sessionId st)),
               (''b'', base64 (toByte (duVariant st) # lb @ utf8_bytes data))]]\<rparr>)"
    unfolding send_def f by auto
  have 3: "\<not> (0 < retryCount st \<and> retryCount st \<le> maxRetries st) \<and> readyState st = OPEN \<longrightarrow>
      (\<forall>sock. ws st = Some sock \<longrightarrow>
            send data st = Inr (st\<lparr>ws := Some (sock\<lparr>sent := sent sock @
              [JSON_stringify
                 [(''t'', ''ToBackend''), (''s'', sessionId st),
                  (''c'', or_else (connectionId st) (sessionId st)),
                  (''b'', base64 (toByte (duVariant st) # lb @ utf8_bytes data))]]\<rparr>)\<rparr>))"
    unfolding send_def f by auto
  have 5: "\<not> (0 < retryCount st \<and> retryCount st \<le> maxRetries st) \<and>
    readyState st \<noteq> CONNECTING \<and> readyState st \<noteq> OPEN \<longrightarrow> send data st = Inl NotOpen"
    by (simp add: send_def)
  show ?thesis using l e 1 2 3 o 5 by blast
qed

text \<open>
  The frames of the payload \<open>ping\<close>, written out: queued while the first socket is
  connecting, when the connection id is not yet known, and sent after the handshake
  that gave the connection id \<open>X1\<close>.
\<close>

theorem send_by_case_witness:
  \<open>send (ascii ''ping'') st_torn = Inr st_torn \<and>
   send (ascii ''ping'') st_conn
     = Inr (st_conn\<lparr>messageQueue := [''{"t":"ToBackend","s":"s1","c":"s1","b":"AAhwaW5n"}'']\<rparr>) \<and>
   send (ascii ''ping'') st_hand
     = Inr (st_hand\<lparr>ws := Some
         \<lparr>sent = [''{"t":"ToBackend","s":"s1","c":"X1","b":"AAhwaW5n"}''], closeCalls = [],
          sockReadyState = CONNECTING, handlersAttached = True\<rparr>\<rparr>) \<and>
   (\<exists>sock. ws st_hand = Some sock) \<and>
   send (ascii ''ping'') (ws_onclose st_hand) = Inl NotOpen\<close>
proof -
  have l: "\<And>lb. encodeInt64 (int (length (utf8_bytes (ascii ''ping'')))) = Inr lb \<longleftrightarrow> lb = [0x08]"
    using encodeInt64_small by (auto simp add: utf8_bytes_ping)
  have b: "base64 (toByte 0 # 0x08 # utf8_bytes (ascii ''ping'')) = ''AAhwaW5n''"
    using base64_ping by (simp add: utf8_bytes_ping toByte_def)
  have 1: "send (ascii ''ping'') st_torn = Inr st_torn"
    using send_by_case [of st_torn "ascii ''ping''"] by (simp add: st_torn_eq)
  have c: "retryCount st_conn = 0" "readyState st_conn = CONNECTING" "duVariant st_conn = 0"
    "sessionId st_conn = ''s1''" "connectionId st_conn = None" "messageQueue st_conn = []"
    by (simp_all add: st_conn_eq)
  have 2: \<open>send (ascii ''ping'') st_conn
     = Inr (st_conn\<lparr>messageQueue := [''{"t":"ToBackend","s":"s1","c":"s1","b":"AAhwaW5n"}'']\<rparr>)\<close>
    using send_by_case [of st_conn "ascii ''ping''"] frame_ping [of "''s1''"]
    unfolding c l by (auto simp add: b or_else_def json_string_def json_escape_def)
  have h: "retryCount st_hand = 0" "readyState st_hand = OPEN" "duVariant st_hand = 0"
    "sessionId st_hand = ''s1''" "connectionId st_hand = Some ''X1''"
    "ws st_hand = Some \<lparr>sent = [], closeCalls = [], sockReadyState = CONNECTING,
       handlersAttached = True\<rparr>"
    by (simp_all add: st_hand_eq)
  have 3: \<open>send (ascii ''ping'') st_hand
     = Inr (st_hand\<lparr>ws := Some
         \<lparr>sent = [''{"t":"ToBackend","s":"s1","c":"X1","b":"AAhwaW5n"}''], closeCalls = [],
          sockReadyState = CONNECTING, handlersAttached = True\<rparr>\<rparr>)\<close>
    using send_by_case [of st_hand "ascii ''ping''"] frame_ping [of "''X1''"]
    unfolding h l by (auto simp add: b or_else_def json_string_def json_escape_def)
  have 4: "\<exists>sock. ws st_hand = Some sock"
    using send_by_case [of st_hand "ascii ''ping''"] reachable_st_hand by (simp add: st_hand_eq)
  have k: "ws_onclose st_hand = st_hand\<lparr>readyState := CLOSED\<rparr>"
    by (simp add: ws_onclose_def st_hand_eq)
  have 5: "send (ascii ''ping'') (ws_onclose st_hand) = Inl NotOpen"
    unfolding k using send_by_case [of "st_hand\<lparr>readyState := CLOSED\<rparr>" "ascii ''ping''"]
    by (simp add: st_hand_eq)
  show ?thesis using 1 2 3 4 5 by blast
qed

section \<open>The connection: closing\<close>

text \<open>
  Claim C8 says that after \<open>close(code, reason)\<close> the ready state is CLOSING from
  every prior state, also when no underlying socket exists. It is not: during the
  initial-connect delay and after a leader teardown there is no socket, and \<open>close\<close>
  takes its \<open>else\<close> branch, which sets the ready state to CLOSED.
\<close>

theorem close_without_socket_counterexample:
  "ws st_delay = None \<and> readyState (close None None st_delay) = CLOSED \<and>
   readyState (close None None st_delay) \<noteq> CLOSING \<and>
   ws st_torn = None \<and> readyState (close None None st_torn) = CLOSED \<and>
   readyState (close None None st_torn) \<noteq> CLOSING"
  by (simp add: st_delay_eq st_torn_eq close_def)

text \<open>
  Claim C8, as the code has it. After \<open>close(code, reason)\<close> returns the reconnect
  timer is cancelled (the handle is cleared); the ready state is CLOSING when an
  underlying socket exists, and that socket has been asked to close with the same code
  and reason; the ready state is CLOSED when no underlying socket exists.
\<close>

theorem close_state:
  "retryTimeout (close code reason st) = None \<and>
   readyState (close code reason st) = (if ws st = None then CLOSED else CLOSING) \<and>
   (\<forall>sock. ws st = Some sock \<longrightarrow>
      ws (close code reason st) = Some (sock\<lparr>closeCalls := closeCalls sock @ [(code, reason)]\<rparr>))"
  by (auto simp add: close_def Let_def split: option.splits)

theorem close_state_witness:
  "retryTimeout (close None None st_torn) = None \<and>
   readyState (close None None st_torn) = CLOSED \<and>
   readyState (close (Some 1000) (Some ''bye'') st_hand) = CLOSING \<and>
   ws (close (Some 1000) (Some ''bye'') st_hand)
     = Some \<lparr>sent = [], closeCalls = [(Some 1000, Some ''bye'')], sockReadyState = CONNECTING,
             handlersAttached = True\<rparr>"
proof -
  have t: "retryTimeout st_torn = Some Pending" "ws st_torn = None"
    by (simp_all add: st_torn_eq)
  have h: "ws st_hand = Some \<lparr>sent = [], closeCalls = [], sockReadyState = CONNECTING,
             handlersAttached = True\<rparr>"
    by (simp add: st_hand_eq)
  show ?thesis
    using close_state [of None None st_torn] close_state [of "Some 1000" "Some ''bye''" st_hand] t h
    by simp
qed

section \<open>The connection: election frames\<close>

text \<open>
  Claim C5 says that every election frame carrying a leader id sets \<open>leaderId\<close>, also
  before the handshake has stored a client id. It does not: \<open>_evaluateLeaderStatus\<close>
  returns \<open>null\<close> while no client id is stored, and the frame is then ignored. Here the
  socket is open, no handshake has arrived, and the frame names the leader \<open>Y2\<close>.
\<close>

theorem election_before_handshake_counterexample:
  "clientId st_open = None \<and>
   leaderId (ws_onmessage (Election (Some ''Y2'')) st_open) = None \<and>
   leaderId (ws_onmessage (Election (Some ''Y2'')) st_open) \<noteq> Some ''Y2''"
  by (simp add: st_open_eq ws_onmessage_def evaluateLeaderStatus_def applyLeaderStatusChange_def truthy_def)

lemma leaderId_disconnectInternal: "leaderId (disconnectInternal st) = None"
  by (simp add: disconnectInternal_def Let_def split: option.splits)

lemma leaderId_handleLeaderDisconnection: "leaderId (handleLeaderDisconnection st) = None"
  by (simp add: handleLeaderDisconnection_def Let_def leaderId_disconnectInternal)


text \<open>
  Claim C5, as the code has it. An election frame carrying a non-empty leader id \<open>l\<close>:
  when a client id is stored and differs from \<open>l\<close>, the frame sets \<open>leaderId\<close> to
  \<open>l\<close> and changes nothing else (whatever the leader was before, \<open>l\<close> included); when
  \<open>l\<close> is the client's own id, \<open>leaderId\<close> is set and the leader disconnection that
  follows clears it again; when no client id is stored the frame changes nothing.
\<close>

theorem election_sets_leaderId:
  assumes "l \<noteq> []"
  shows "(truthy (clientId st) \<and> clientId st \<noteq> Some l \<longrightarrow>
            ws_onmessage (Election (Some l)) st = st\<lparr>leaderId := Some l\<rparr>) \<and>
         (clientId st = Some l \<longrightarrow>
            ws_onmessage (Election (Some l)) st = handleLeaderDisconnection (st\<lparr>leaderId := Some l\<rparr>) \<and>
            leaderId (ws_onmessage (Election (Some l)) st) = None) \<and>
         (\<not> truthy (clientId st) \<longrightarrow> ws_onmessage (Election (Some l)) st = st)"
  using assms
  by (auto simp add: ws_onmessage_def evaluateLeaderStatus_def applyLeaderStatusChange_def
      truthy_def Let_def leaderId_handleLeaderDisconnection split: option.splits)

theorem election_sets_leaderId_witness:
  "leaderId (ws_onmessage (Election (Some ''Y2'')) st_hand) = Some ''Y2'' \<and>
   leaderId (ws_onmessage (Election (Some ''Y2'')) (st_hand\<lparr>leaderId := Some ''Y2''\<rparr>)) = Some ''Y2'' \<and>
   leaderId (ws_onmessage (Election (Some ''X1'')) st_hand) = None \<and>
   ws_onmessage (Election (Some ''Y2'')) st_open = st_open"
proof -
  have 1: "ws_onmessage (Election (Some ''Y2'')) st_hand = st_hand\<lparr>leaderId := Some ''Y2''\<rparr>"
    using election_sets_leaderId [of "''Y2''" st_hand]
    by (simp add: clientId_st_hand truthy_def)
  have 2: "ws_onmessage (Election (Some ''Y2'')) (st_hand\<lparr>leaderId := Some ''Y2''\<rparr>)
             = st_hand\<lparr>leaderId := Some ''Y2''\<rparr>"
    using election_sets_leaderId [of "''Y2''" "st_hand\<lparr>leaderId := Some ''Y2''\<rparr>"]
    by (simp add: clientId_st_hand truthy_def)
  have 3: "leaderId (ws_onmessage (Election (Some ''X1'')) st_hand) = None"
    using election_sets_leaderId [of "''X1''" st_hand]
    by (auto simp add: clientId_st_hand)
  have 4: "ws_onmessage (Election (Some ''Y2'')) st_open = st_open"
    using election_sets_leaderId [of "''Y2''" st_open]
    by (simp add: clientId_st_open truthy_def)
  show ?thesis by (simp add: 1 2 3 4)
qed

section \<open>The connection: leader avoidance runs out\<close>

lemma handleLeaderDisconnection_fields:
  "retryCount (handleLeaderDisconnection st) = retryCount st + 1"
  "maxRetries (handleLeaderDisconnection st) = maxRetries st"
  "onleaderdisconnect (handleLeaderDisconnection st) = onleaderdisconnect st"
  "clientId (handleLeaderDisconnection st) = None"
  "connectionId (handleLeaderDisconnection st) = None"
  "ws (handleLeaderDisconnection st) = None"
  "messageQueue (handleLeaderDisconnection st) = []"
  by (simp_all add: handleLeaderDisconnection_def disconnectInternal_def Let_def split: option.splits)

lemma handleLeaderDisconnection_retry:
  assumes "retryCount st + 1 \<le> maxRetries st"
  shows "readyState (handleLeaderDisconnection st) = CONNECTING"
    "retryTimeout (handleLeaderDisconnection st) = Some Pending"
    "fired (handleLeaderDisconnection st) = fired st"
  using assms
  by (simp_all add: handleLeaderDisconnection_def disconnectInternal_def Let_def split: option.splits)

lemma handleLeaderDisconnection_give_up:
  assumes "\<not> retryCount st + 1 \<le> maxRetries st"
  shows "readyState (handleLeaderDisconnection st) = CLOSED"
    "retryTimeout (handleLeaderDisconnection st) = None"
    "fired (handleLeaderDisconnection st) =
       (if onleaderdisconnect st then fired st @ [OnLeaderDisconnect (retryCount st + 1)] else fired st)"
  using assms
  by (simp_all add: handleLeaderDisconnection_def disconnectInternal_def Let_def split: option.splits)

lemma election_without_clientId:
  "clientId st = None \<Longrightarrow> ws_onmessage (Election l) st = st"
  by (simp add: ws_onmessage_def evaluateLeaderStatus_def applyLeaderStatusChange_def truthy_def)

lemma self_election:
  "clientId st = Some c \<Longrightarrow> c \<noteq> [] \<Longrightarrow>
   ws_onmessage (Election (Some c)) st = handleLeaderDisconnection (st\<lparr>leaderId := Some c\<rparr>)"
  by (simp add: ws_onmessage_def evaluateLeaderStatus_def applyLeaderStatusChange_def truthy_def)


text \<open>
  Claim C6 says that with \<open>maxRetries = 2\<close> and a retry count of 0, two self-election
  frames in a row without a handshake between them end in CLOSED with
  \<open>onleaderdisconnect\<close> fired on the retry count 3. They do not. The first frame tears
  the connection down, which clears the client id, so a second frame is ignored,
  whether it comes at once or after the reconnect, on the new socket, before any
  handshake: the retry count stays 1 and the state is not CLOSED. Two leader
  disconnections in a row would not do either: the count is then 2, which is still
  within \<open>maxRetries\<close>.
\<close>

theorem two_self_elections_counterexample:
  "maxRetries st_hand = 2 \<and> retryCount st_hand = 0 \<and> clientId st_hand = Some ''X1'' \<and>
   onleaderdisconnect st_hand \<and>
   st_torn = ws_onmessage (Election (Some ''X1'')) st_hand \<and>
   readyState (ws_onmessage (Election (Some ''X1'')) st_torn) = CONNECTING \<and>
   retryCount (ws_onmessage (Election (Some ''X1'')) st_torn) = 1 \<and>
   fired (ws_onmessage (Election (Some ''X1'')) st_torn) = [] \<and>
   ws_onopen (retry_timer_fires 0 st_torn) = Inr st_again \<and>
   readyState (ws_onmessage (Election (Some ''X1'')) st_again) = OPEN \<and>
   retryCount (ws_onmessage (Election (Some ''X1'')) st_again) = 1 \<and>
   fired (ws_onmessage (Election (Some ''X1'')) st_again) = [] \<and>
   readyState (handleLeaderDisconnection (handleLeaderDisconnection st_hand)) = CONNECTING \<and>
   retryCount (handleLeaderDisconnection (handleLeaderDisconnection st_hand)) = 2 \<and>
   fired (handleLeaderDisconnection (handleLeaderDisconnection st_hand)) = []"
proof -
  have t: "ws_onmessage (Election (Some ''X1'')) st_torn = st_torn"
    by (rule election_without_clientId) (simp add: st_torn_eq)
  have a: "ws_onmessage (Election (Some ''X1'')) st_again = st_again"
    by (rule election_without_clientId) (simp add: st_again_fields)
  let ?h1 = "handleLeaderDisconnection st_hand"
  have h1: "retryCount ?h1 = 1 \<and> maxRetries ?h1 = 2 \<and> fired ?h1 = []"
    by (simp add: handleLeaderDisconnection_retry handleLeaderDisconnection_fields st_hand_eq)
  have b: "readyState (handleLeaderDisconnection ?h1) = CONNECTING \<and>
      retryCount (handleLeaderDisconnection ?h1) = 2 \<and> fired (handleLeaderDisconnection ?h1) = []"
    using h1 by (simp add: handleLeaderDisconnection_retry handleLeaderDisconnection_fields)
  have c: "maxRetries st_hand = 2 \<and> retryCount st_hand = 0 \<and> clientId st_hand = Some ''X1'' \<and>
     onleaderdisconnect st_hand" by (simp add: st_hand_eq)
  have d: "readyState st_torn = CONNECTING \<and> retryCount st_torn = 1 \<and> fired st_torn = []"
    by (simp add: st_torn_eq)
  show ?thesis
    unfolding t a using b c d ws_onopen_retry by (simp add: st_again_fields st_torn_def)
qed

text \<open>
  Claim C6, as the code has it. With \<open>maxRetries = 2\<close>, a retry count of 0 and the
  callback installed, the first and the second leader disconnection in a row schedule
  a reconnect and leave the state CONNECTING; the third sets the state to CLOSED and
  fires \<open>onleaderdisconnect\<close> with the retry count 3. A self-election frame runs one
  leader disconnection (retry count 1, state CONNECTING), and a second self-election
  frame right after it changes nothing.
\<close>

theorem leader_disconnection_exhaustion:
  assumes "maxRetries st = 2" and "retryCount st = 0" and "onleaderdisconnect st"
  shows "readyState (handleLeaderDisconnection st) = CONNECTING \<and>
     retryTimeout (handleLeaderDisconnection st) = Some Pending \<and>
     fired (handleLeaderDisconnection st) = fired st \<and>
     readyState (handleLeaderDisconnection (handleLeaderDisconnection st)) = CONNECTING \<and>
     retryTimeout (handleLeaderDisconnection (handleLeaderDisconnection st)) = Some Pending \<and>
     fired (handleLeaderDisconnection (handleLeaderDisconnection st)) = fired st \<and>
     readyState (handleLeaderDisconnection (handleLeaderDisconnection (handleLeaderDisconnection st))) = CLOSED \<and>
     retryCount (handleLeaderDisconnection (handleLeaderDisconnection (handleLeaderDisconnection st))) = 3 \<and>
     fired (handleLeaderDisconnection (handleLeaderDisconnection (handleLeaderDisconnection st)))
       = fired st @ [OnLeaderDisconnect 3] \<and>
     (\<forall>c. clientId st = Some c \<and> c \<noteq> [] \<longrightarrow>
        ws_onmessage (Election (Some c)) st = handleLeaderDisconnection (st\<lparr>leaderId := Some c\<rparr>) \<and>
        ws_onmessage (Election (Some c)) (ws_onmessage (Election (Some c)) st)
          = ws_onmessage (Election (Some c)) st \<and>
        retryCount (ws_onmessage (Election (Some c)) st) = 1 \<and>
        readyState (ws_onmessage (Election (Some c)) st) = CONNECTING)"
proof -
  let ?h1 = "handleLeaderDisconnection st"
  let ?h2 = "handleLeaderDisconnection ?h1"
  let ?h3 = "handleLeaderDisconnection ?h2"
  have 1: "readyState ?h1 = CONNECTING \<and> retryTimeout ?h1 = Some Pending \<and> fired ?h1 = fired st
      \<and> retryCount ?h1 = 1 \<and> maxRetries ?h1 = 2 \<and> onleaderdisconnect ?h1"
    using assms by (simp add: handleLeaderDisconnection_retry handleLeaderDisconnection_fields)
  have 2: "readyState ?h2 = CONNECTING \<and> retryTimeout ?h2 = Some Pending \<and> fired ?h2 = fired st
      \<and> retryCount ?h2 = 2 \<and> maxRetries ?h2 = 2 \<and> onleaderdisconnect ?h2"
    using 1 by (simp add: handleLeaderDisconnection_retry handleLeaderDisconnection_fields)
  have 3: "readyState ?h3 = CLOSED \<and> retryCount ?h3 = 3 \<and> fired ?h3 = fired st @ [OnLeaderDisconnect 3]"
    using 2 by (simp add: handleLeaderDisconnection_give_up handleLeaderDisconnection_fields)
  have 4: "ws_onmessage (Election (Some c)) st = handleLeaderDisconnection (st\<lparr>leaderId := Some c\<rparr>) \<and>
        ws_onmessage (Election (Some c)) (ws_onmessage (Election (Some c)) st)
          = ws_onmessage (Election (Some c)) st \<and>
        retryCount (ws_onmessage (Election (Some c)) st) = 1 \<and>
        readyState (ws_onmessage (Election (Some c)) st) = CONNECTING"
    if c: "clientId st = Some c" "c \<noteq> []" for c
  proof -
    have e: "ws_onmessage (Election (Some c)) st = handleLeaderDisconnection (st\<lparr>leaderId := Some c\<rparr>)"
      using c by (rule self_election)
    have "clientId (ws_onmessage (Election (Some c)) st) = None"
      by (simp add: e handleLeaderDisconnection_fields)
    then have "ws_onmessage (Election (Some c)) (ws_onmessage (Election (Some c)) st)
          = ws_onmessage (Election (Some c)) st"
      by (rule election_without_clientId)
    moreover have "retryCount (ws_onmessage (Election (Some c)) st) = 1 \<and>
        readyState (ws_onmessage (Election (Some c)) st) = CONNECTING"
      unfolding e using assms
      by (simp add: handleLeaderDisconnection_retry handleLeaderDisconnection_fields)
    ultimately show ?thesis using e by simp
  qed
  show ?thesis using 1 2 3 4 by blast
qed

theorem leader_disconnection_exhaustion_witness:
  "readyState (handleLeaderDisconnection (handleLeaderDisconnection (handleLeaderDisconnection st_hand))) = CLOSED \<and>
   fired (handleLeaderDisconnection (handleLeaderDisconnection (handleLeaderDisconnection st_hand)))
       = [OnLeaderDisconnect 3] \<and>
   readyState (handleLeaderDisconnection (handleLeaderDisconnection st_hand)) = CONNECTING \<and>
   ws_onmessage (Election (Some ''X1'')) (ws_onmessage (Election (Some ''X1'')) st_hand)
          = ws_onmessage (Election (Some ''X1'')) st_hand"
proof -
  have h: "maxRetries st_hand = 2" "retryCount st_hand = 0" "onleaderdisconnect st_hand"
    "clientId st_hand = Some ''X1''" "fired st_hand = []"
    by (simp_all add: st_hand_eq)
  show ?thesis
    using leader_disconnection_exhaustion [OF h(1) h(2) h(3)] h(4) h(5) by auto
qed

end
